theory Spec2Isabelle
  imports Complex_Main
begin

section \<open>Errors and tensors\<close>

text \<open>
  The exceptions the modelled code can raise: \<open>RuntimeError\<close> is what the tensor
  library raises on a shape mismatch (\<open>view\<close>, \<open>permute\<close>, broadcasting,
  convolution, inversion of a singular matrix), \<open>ValueError\<close> is a failed tuple
  unpacking, \<open>IndexError\<close> a dimension out of range.

  The elements of the tensors of \<open>model.py\<close> are modelled as real numbers: a finite
  floating-point value is the real number it stands for, without rounding or overflow.
  \<open>NonFinite\<close> is not an exception: it marks a step whose floating-point result is
  NaN or infinite (the mean over an empty axis, the logarithm of a number that is not
  positive), which a real number cannot carry; the model stops there.
\<close>

datatype error = RuntimeError | ValueError | IndexError | NonFinite

definition bnd :: "error + 'a \<Rightarrow> ('a \<Rightarrow> error + 'b) \<Rightarrow> error + 'b" where
  "bnd m f = (case m of Inl e \<Rightarrow> Inl e | Inr v \<Rightarrow> f v)"

text \<open>
  A contiguous tensor: its shape and its elements in row-major order.
\<close>

record 'a tensor =
  shape :: "nat list"
  dat :: "'a list"

definition wf_tensor :: "'a tensor \<Rightarrow> bool" where
  "wf_tensor t \<longleftrightarrow> length (dat t) = prod_list (shape t)"

text \<open>Row-major offset of a multi-index, and the multi-index of an offset.\<close>

fun ravel :: "nat list \<Rightarrow> nat list \<Rightarrow> nat" where
  "ravel (n # s) (i # idx) = i * prod_list s + ravel s idx"
| "ravel _ _ = 0"

fun unravel :: "nat list \<Rightarrow> nat \<Rightarrow> nat list" where
  "unravel [] k = []"
| "unravel (n # s) k = (k div prod_list s) # unravel s (k mod prod_list s)"

definition valid :: "nat list \<Rightarrow> nat list \<Rightarrow> bool" where
  "valid s idx \<longleftrightarrow> list_all2 (<) idx s"

definition get :: "'a tensor \<Rightarrow> nat list \<Rightarrow> 'a" where
  "get t idx = dat t ! ravel (shape t) idx"

definition tabulate :: "nat list \<Rightarrow> (nat list \<Rightarrow> 'a) \<Rightarrow> 'a tensor" where
  "tabulate s f = \<lparr>shape = s, dat = map (\<lambda>k. f (unravel s k)) [0..<prod_list s]\<rparr>"

subsection \<open>view and permute\<close>

text \<open>
  \<open>x.view(s)\<close> on a contiguous tensor keeps the elements and replaces the shape; it
  raises when the number of elements differs.
\<close>

definition view :: "'a tensor \<Rightarrow> nat list \<Rightarrow> error + 'a tensor" where
  "view x s = (if prod_list s = prod_list (shape x) then Inr (x\<lparr>shape := s\<rparr>)
               else Inl RuntimeError)"

fun index_in :: "nat list \<Rightarrow> nat \<Rightarrow> nat" where
  "index_in [] j = 0"
| "index_in (d # ds) j = (if d = j then 0 else Suc (index_in ds j))"

text \<open>
  \<open>x.permute(dims).contiguous()\<close>: dimension \<open>i\<close> of the result is dimension
  \<open>dims ! i\<close> of \<open>x\<close>; the elements are laid out afresh in row-major order.
\<close>

definition perm_idx :: "nat list \<Rightarrow> nat list \<Rightarrow> nat list" where
  "perm_idx dims idx = map (\<lambda>j. idx ! index_in dims j) [0..<length dims]"

definition permute :: "'a tensor \<Rightarrow> nat list \<Rightarrow> error + 'a tensor" where
  "permute x dims =
     (if sort dims = [0..<length (shape x)]
      then Inr (tabulate (map (\<lambda>d. shape x ! d) dims) (\<lambda>idx. get x (perm_idx dims idx)))
      else Inl RuntimeError)"

subsection \<open>squeeze\<close>

definition squeeze :: "'a tensor \<Rightarrow> bool \<Rightarrow> error + 'a tensor" where
  "squeeze x reverse =
     (case shape x of
        [b, c, h, w] \<Rightarrow>
          if reverse then
            bnd (view x [b, c div 4, 2, 2, h, w]) (\<lambda>x.
            bnd (permute x [0, 1, 4, 2, 5, 3]) (\<lambda>x.
            view x [b, c div 4, h * 2, w * 2]))
          else
            bnd (view x [b, c, h div 2, 2, w div 2, 2]) (\<lambda>x.
            bnd (permute x [0, 1, 3, 5, 2, 4]) (\<lambda>x.
            view x [b, c * 2 * 2, h div 2, w div 2]))
      | _ \<Rightarrow> Inl ValueError)"



subsection \<open>Broadcasting\<close>

text \<open>
  Broadcasting aligns two shapes at their last dimension; two sizes are compatible when
  they are equal or one of them is 1.
\<close>

type_synonym shp = "nat list"

fun bshape_rev :: "shp \<Rightarrow> shp \<Rightarrow> shp option" where
  "bshape_rev [] ys = Some ys"
| "bshape_rev xs [] = Some xs"
| "bshape_rev (x # xs) (y # ys) =
     (if x = y \<or> y = 1 then map_option ((#) x) (bshape_rev xs ys)
      else if x = 1 then map_option ((#) y) (bshape_rev xs ys)
      else None)"

definition broadcast_shapes :: "shp \<Rightarrow> shp \<Rightarrow> shp option" where
  "broadcast_shapes s t = map_option rev (bshape_rev (rev s) (rev t))"

text \<open>
  The index into an operand of shape \<open>s\<close> for the index \<open>idx\<close> into the broadcast
  result: the leading dimensions the operand lacks are dropped, and a dimension of size 1
  is read at 0.
\<close>

definition bidx :: "shp \<Rightarrow> nat list \<Rightarrow> nat list" where
  "bidx s idx = map2 (\<lambda>n i. if n = 1 then 0 else i) s (drop (length idx - length s) idx)"

definition bop :: "('a \<Rightarrow> 'b \<Rightarrow> 'c) \<Rightarrow> 'a tensor \<Rightarrow> 'b tensor \<Rightarrow> error + 'c tensor" where
  "bop f x y =
     (case broadcast_shapes (shape x) (shape y) of
        None \<Rightarrow> Inl RuntimeError
      | Some s \<Rightarrow> Inr (tabulate s (\<lambda>idx. f (get x (bidx (shape x) idx))
                                          (get y (bidx (shape y) idx)))))"

text \<open>\<open>dst.copy_(src)\<close> expands \<open>src\<close> to the shape of \<open>dst\<close>.\<close>

definition copy_into :: "'a tensor \<Rightarrow> 'a tensor \<Rightarrow> error + 'a tensor" where
  "copy_into dst src =
     (if broadcast_shapes (shape dst) (shape src) = Some (shape dst)
      then Inr (tabulate (shape dst) (\<lambda>idx. get src (bidx (shape src) idx)))
      else Inl RuntimeError)"

definition tmap :: "('a \<Rightarrow> 'b) \<Rightarrow> 'a tensor \<Rightarrow> 'b tensor" where
  "tmap f x = \<lparr>shape = shape x, dat = map f (dat x)\<rparr>"

text \<open>\<open>torch.zeros(s)\<close> and \<open>torch.ones(s)\<close>\<close>

definition zeros :: "nat list \<Rightarrow> real tensor" where
  "zeros s = tabulate s (\<lambda>_. 0)"

definition ones :: "nat list \<Rightarrow> real tensor" where
  "ones s = tabulate s (\<lambda>_. 1)"

text \<open>A tensor with no dimension and one element.\<close>

definition scalar :: "'a \<Rightarrow> 'a tensor" where
  "scalar a = \<lparr>shape = [], dat = [a]\<rparr>"

subsection \<open>Elementwise functions that are not defined everywhere\<close>

definition log_t :: "real tensor \<Rightarrow> error + real tensor" where
  "log_t x = (if \<exists>a \<in> set (dat x). a \<le> 0 then Inl NonFinite else Inr (tmap ln x))"

definition sqrt_t :: "real tensor \<Rightarrow> error + real tensor" where
  "sqrt_t x = (if \<exists>a \<in> set (dat x). a < 0 then Inl NonFinite else Inr (tmap sqrt x))"

text \<open>\<open>c / x\<close> for a number \<open>c\<close>.\<close>

definition rdiv_t :: "real \<Rightarrow> real tensor \<Rightarrow> error + real tensor" where
  "rdiv_t c x = (if \<exists>a \<in> set (dat x). a = 0 then Inl NonFinite else Inr (tmap (\<lambda>a. c / a) x))"

subsection \<open>Reductions\<close>

text \<open>
  \<open>t.mean(dim=d, keepdim=True)\<close>. Over an axis of size 0 the elements of the result, if
  it has any, are 0/0.
\<close>

definition mean :: "real tensor \<Rightarrow> nat \<Rightarrow> error + real tensor" where
  "mean t d =
     (if length (shape t) \<le> d then Inl IndexError
      else if shape t ! d = 0 \<and> 0 < prod_list ((shape t)[d := 1]) then Inl NonFinite
      else Inr (tabulate ((shape t)[d := 1])
                  (\<lambda>idx. (\<Sum>k\<leftarrow>[0..<shape t ! d]. get t (idx[d := k])) / real (shape t ! d))))"

fun means :: "real tensor \<Rightarrow> nat list \<Rightarrow> error + real tensor" where
  "means t [] = Inr t"
| "means t (d # ds) = bnd (mean t d) (\<lambda>t. means t ds)"

text \<open>
  \<open>t.squeeze_(k)\<close> removes dimension \<open>k\<close> when its size is 1; a negative \<open>k\<close>
  counts from the last dimension.
\<close>

definition squeeze_dim :: "'a tensor \<Rightarrow> int \<Rightarrow> error + 'a tensor" where
  "squeeze_dim t k =
     (let n = int (length (shape t));
          j = nat (if k < 0 then k + n else k)
      in if n = 0 then (if k = 0 \<or> k = - 1 then Inr t else Inl IndexError)
         else if k < - n \<or> n \<le> k then Inl IndexError
         else if shape t ! j = 1
              then Inr (t\<lparr>shape := take j (shape t) @ drop (Suc j) (shape t)\<rparr>)
              else Inr t)"

text \<open>The loop \<open>for i, d in enumerate(dim): tensor.squeeze_(d-i)\<close>, from position \<open>i\<close>.\<close>

fun squeezes :: "'a tensor \<Rightarrow> nat list \<Rightarrow> nat \<Rightarrow> error + 'a tensor" where
  "squeezes t [] i = Inr t"
| "squeezes t (d # ds) i = bnd (squeeze_dim t (int d - int i)) (\<lambda>t. squeezes t ds (Suc i))"

text \<open>\<open>mean_dim\<close> for a list of dimensions.\<close>

definition mean_dim :: "real tensor \<Rightarrow> nat list \<Rightarrow> bool \<Rightarrow> error + real tensor" where
  "mean_dim t dims keepdims =
     bnd (means t (sort dims)) (\<lambda>t. if keepdims then Inr t else squeezes t (sort dims) 0)"

section \<open>Shapes\<close>

text \<open>
  Which exception a call raises, and the shape of what it returns, depend in this program
  on the shapes of the tensors only. The functions of this section, named after the
  source's with the suffix \<open>_shape\<close>, compute on shapes what the source computes on
  tensors, one line of the model for each line of the source that can change a shape or
  raise.
\<close>

definition bcast :: "shp \<Rightarrow> shp \<Rightarrow> error + shp" where
  "bcast s t = (case broadcast_shapes s t of None \<Rightarrow> Inl RuntimeError | Some u \<Rightarrow> Inr u)"

text \<open>\<open>dst.copy_(src)\<close> expands \<open>src\<close> to the shape of \<open>dst\<close>.\<close>

definition copy_shape :: "shp \<Rightarrow> shp \<Rightarrow> error + unit" where
  "copy_shape dst src = (if broadcast_shapes dst src = Some dst then Inr () else Inl RuntimeError)"

definition view_shape :: "shp \<Rightarrow> shp \<Rightarrow> error + shp" where
  "view_shape s s' = (if prod_list s' = prod_list s then Inr s' else Inl RuntimeError)"

definition permute_shape :: "shp \<Rightarrow> nat list \<Rightarrow> error + shp" where
  "permute_shape s dims =
     (if sort dims = [0..<length s] then Inr (map (\<lambda>d. s ! d) dims) else Inl RuntimeError)"

definition squeeze_shape :: "shp \<Rightarrow> bool \<Rightarrow> error + shp" where
  "squeeze_shape x reverse =
     (case x of
        [b, c, h, w] \<Rightarrow>
          if reverse then
            bnd (view_shape x [b, c div 4, 2, 2, h, w]) (\<lambda>x.
            bnd (permute_shape x [0, 1, 4, 2, 5, 3]) (\<lambda>x.
            view_shape x [b, c div 4, h * 2, w * 2]))
          else
            bnd (view_shape x [b, c, h div 2, 2, w div 2, 2]) (\<lambda>x.
            bnd (permute_shape x [0, 1, 3, 5, 2, 4]) (\<lambda>x.
            view_shape x [b, c * 2 * 2, h div 2, w div 2]))
      | _ \<Rightarrow> Inl ValueError)"

subsection \<open>mean_dim and ActNorm\<close>

definition mean_shape :: "shp \<Rightarrow> nat \<Rightarrow> error + shp" where
  "mean_shape s d = (if d < length s then Inr (s[d := 1]) else Inl IndexError)"

fun means_shape :: "shp \<Rightarrow> nat list \<Rightarrow> error + shp" where
  "means_shape s [] = Inr s"
| "means_shape s (d # ds) = bnd (mean_shape s d) (\<lambda>s. means_shape s ds)"

definition squeeze_dim_shape :: "shp \<Rightarrow> int \<Rightarrow> error + shp" where
  "squeeze_dim_shape s k =
     (let n = int (length s);
          j = nat (if k < 0 then k + n else k)
      in if n = 0 then (if k = 0 \<or> k = - 1 then Inr s else Inl IndexError)
         else if k < - n \<or> n \<le> k then Inl IndexError
         else if s ! j = 1 then Inr (take j s @ drop (Suc j) s)
              else Inr s)"

fun squeezes_shape :: "shp \<Rightarrow> nat list \<Rightarrow> nat \<Rightarrow> error + shp" where
  "squeezes_shape s [] i = Inr s"
| "squeezes_shape s (d # ds) i =
     bnd (squeeze_dim_shape s (int d - int i)) (\<lambda>s. squeezes_shape s ds (Suc i))"

definition mean_dim_shape :: "shp \<Rightarrow> nat list \<Rightarrow> bool \<Rightarrow> error + shp" where
  "mean_dim_shape s dims keepdims =
     bnd (means_shape s (sort dims)) (\<lambda>s.
       if keepdims then Inr s else squeezes_shape s (sort dims) 0)"

text \<open>
  An ActNorm layer with \<open>C\<close> features holds \<open>bias\<close> and \<open>logs\<close> of shape
  \<open>(1, C, 1, 1)\<close>. The flag \<open>ini\<close> says whether this call runs the data-dependent
  initialisation: the layer is in training mode and \<open>is_initialized\<close> is still zero.
\<close>

definition initialize_parameters_shape :: "nat \<Rightarrow> shp \<Rightarrow> error + unit" where
  "initialize_parameters_shape C x =
     bnd (mean_dim_shape x [0, 2, 3] True) (\<lambda>bias.
     bnd (bcast x bias) (\<lambda>xc.
     bnd (mean_dim_shape xc [0, 2, 3] True) (\<lambda>logs.
     bnd (copy_shape [1, C, 1, 1] bias) (\<lambda>_.
     copy_shape [1, C, 1, 1] logs))))"

definition center_shape :: "nat \<Rightarrow> shp \<Rightarrow> error + shp" where
  "center_shape C x = bcast x [1, C, 1, 1]"

definition scale_shape :: "nat \<Rightarrow> shp \<Rightarrow> shp option \<Rightarrow> error + shp \<times> shp option" where
  "scale_shape C x sldj =
     bnd (bcast x [1, C, 1, 1]) (\<lambda>x.
       case sldj of
         None \<Rightarrow> Inr (x, None)
       | Some l \<Rightarrow> if length x < 4 then Inl IndexError
                   else bnd (bcast l []) (\<lambda>l. Inr (x, Some l)))"

definition ActNorm_forward_shape ::
  "nat \<Rightarrow> bool \<Rightarrow> shp \<Rightarrow> shp option \<Rightarrow> bool \<Rightarrow> error + shp \<times> shp option" where
  "ActNorm_forward_shape C ini x ldj reverse =
     bnd (if ini then initialize_parameters_shape C x else Inr ()) (\<lambda>_.
       if reverse then
         bnd (scale_shape C x ldj) (\<lambda>(x, ldj).
         bnd (center_shape C x) (\<lambda>x. Inr (x, ldj)))
       else
         bnd (center_shape C x) (\<lambda>x.
         scale_shape C x ldj))"

subsection \<open>Convolutions, InvConv\<close>

text \<open>
  A convolution with \<open>cin\<close> input channels, \<open>cout\<close> output channels, a square
  kernel of size \<open>k\<close>, stride 1 and padding \<open>pad\<close>, on a 4-D input; any other
  input raises. (Releases of the library that also take a 3-D input without batch
  dimension are not modelled; no such input reaches a convolution of this program: an
  ActNorm comes first, whose 4-D bias makes its output at least 4-D, and a coupling layer
  given a 3-D input fails when it concatenates.)
\<close>

definition conv_shape :: "nat \<Rightarrow> nat \<Rightarrow> nat \<Rightarrow> nat \<Rightarrow> shp \<Rightarrow> error + shp" where
  "conv_shape cin cout k pad x =
     (case x of
        [b, c, h, w] \<Rightarrow>
          if c = cin \<and> k \<le> h + 2 * pad \<and> k \<le> w + 2 * pad
          then Inr [b, cout, h + 2 * pad + 1 - k, w + 2 * pad + 1 - k]
          else Inl RuntimeError
      | _ \<Rightarrow> Inl RuntimeError)"

text \<open>
  \<open>invertible\<close> says whether the weight matrix has an inverse: \<open>torch.inverse\<close>
  raises on a singular matrix.
\<close>

definition InvConv_forward_shape ::
  "nat \<Rightarrow> bool \<Rightarrow> shp \<Rightarrow> shp option \<Rightarrow> bool \<Rightarrow> error + shp \<times> shp option" where
  "InvConv_forward_shape C invertible x sldj reverse =
     bnd (case sldj of
            None \<Rightarrow> Inr None
          | Some l \<Rightarrow> if length x < 4 then Inl IndexError
                      else bnd (bcast l []) (\<lambda>l. Inr (Some l))) (\<lambda>sldj.
     bnd (if reverse \<and> \<not> invertible then Inl RuntimeError else Inr ()) (\<lambda>_.
     bnd (conv_shape C C 1 0 x) (\<lambda>z. Inr (z, sldj))))"

subsection \<open>Coupling and its conditioner\<close>

text \<open>
  The conditioner with ActNorm layers (\<open>params.batchnorm\<close> false, the only value the
  two command lines can produce: their flag \<open>--batchnorm\<close> stores False and defaults to
  False). These ActNorm layers return the tensor only.
\<close>

definition norm_shape :: "nat \<Rightarrow> bool \<Rightarrow> shp \<Rightarrow> error + shp" where
  "norm_shape C ini x = bnd (ActNorm_forward_shape C ini x None False) (\<lambda>(x, _). Inr x)"

definition NN_forward_shape :: "nat \<Rightarrow> nat \<Rightarrow> nat \<Rightarrow> bool \<Rightarrow> shp \<Rightarrow> error + shp" where
  "NN_forward_shape in_channels mid_channels out_channels ini x =
     bnd (norm_shape in_channels ini x) (\<lambda>x.
     bnd (conv_shape in_channels mid_channels 3 1 x) (\<lambda>x1.
     bnd (conv_shape in_channels mid_channels 3 1 x) (\<lambda>x.
     bnd (conv_shape mid_channels mid_channels 3 1 x) (\<lambda>x.
     bnd (norm_shape mid_channels ini x) (\<lambda>x.
     bnd (conv_shape mid_channels mid_channels 1 0 x) (\<lambda>x.
     bnd (norm_shape mid_channels ini x) (\<lambda>x.
     conv_shape mid_channels out_channels 3 1 x)))))))"

text \<open>
  \<open>x.chunk(2, dim=1)\<close> cuts dimension 1 into pieces of size \<open>\<lceil>C / 2\<rceil>\<close>: two
  pieces when \<open>C \<ge> 2\<close> (the second one shorter when \<open>C\<close> is odd), two empty pieces
  when \<open>C = 0\<close>, and one piece when \<open>C = 1\<close>, which the unpacking into two names
  rejects.
\<close>

definition chunk2_shape :: "shp \<Rightarrow> error + shp \<times> shp" where
  "chunk2_shape x =
     (case x of
        b # c # rest \<Rightarrow>
          if c = 1 then Inl ValueError
          else Inr (b # ((c + 1) div 2) # rest, b # (c - (c + 1) div 2) # rest)
      | _ \<Rightarrow> Inl IndexError)"

text \<open>\<open>st[:, start::2, ...]\<close> for \<open>start\<close> 0 or 1.\<close>

definition strided1_shape :: "shp \<Rightarrow> nat \<Rightarrow> error + shp" where
  "strided1_shape st start =
     (case st of
        b # c # rest \<Rightarrow> Inr (b # ((c + 1 - start) div 2) # rest)
      | _ \<Rightarrow> Inl IndexError)"

text \<open>\<open>s.flatten(1).sum(-1)\<close>\<close>

definition flatten_sum_shape :: "shp \<Rightarrow> error + shp" where
  "flatten_sum_shape s = (case s of b # c # rest \<Rightarrow> Inr [b] | _ \<Rightarrow> Inl IndexError)"

text \<open>\<open>torch.cat((a, b), dim=1)\<close>: the shapes agree outside dimension 1.\<close>

definition cat1_shape :: "shp \<Rightarrow> shp \<Rightarrow> error + shp" where
  "cat1_shape a b =
     (case (a, b) of
        (n # c # r, n' # c' # r') \<Rightarrow>
          if n = n' \<and> r = r' then Inr (n # (c + c') # r) else Inl RuntimeError
      | _ \<Rightarrow> Inl RuntimeError)"

text \<open>
  \<open>Coupling(in_channels, mid_channels, params)\<close>: the conditioner is
  \<open>NN(in_channels, mid_channels, 2 * in_channels)\<close> and \<open>scale\<close> has shape
  \<open>(in_channels, 1, 1)\<close>.
\<close>

definition Coupling_forward_shape ::
  "nat \<Rightarrow> nat \<Rightarrow> bool \<Rightarrow> shp \<Rightarrow> shp option \<Rightarrow> bool \<Rightarrow> error + shp \<times> shp option" where
  "Coupling_forward_shape in_channels mid_channels ini x ldj reverse =
     bnd (chunk2_shape x) (\<lambda>(x_change, x_id).
     bnd (NN_forward_shape in_channels mid_channels (2 * in_channels) ini x_id) (\<lambda>st.
     bnd (strided1_shape st 0) (\<lambda>s.
     bnd (strided1_shape st 1) (\<lambda>t.
     bnd (bcast [in_channels, 1, 1] s) (\<lambda>s.
     bnd (if reverse then bnd (bcast x_change s) (\<lambda>x_change. bcast x_change t)
          else bnd (bcast x_change t) (\<lambda>x_change. bcast x_change s)) (\<lambda>x_change.
     bnd (case ldj of
            None \<Rightarrow> Inr None
          | Some l \<Rightarrow> bnd (flatten_sum_shape s) (\<lambda>d. bnd (bcast l d) (\<lambda>l. Inr (Some l))))
         (\<lambda>ldj.
     bnd (cat1_shape x_change x_id) (\<lambda>x. Inr (x, ldj)))))))))"

subsection \<open>Flow steps, levels, the model\<close>

text \<open>
  \<open>_FlowStep(in_channels, mid_channels, params)\<close> holds
  \<open>ActNorm(in_channels, return_ldj=True)\<close>, \<open>InvConv(in_channels)\<close> and
  \<open>Coupling(in_channels // 2, mid_channels, params)\<close>. \<open>invt\<close> says whether the
  weight matrices of the InvConv layers are invertible.
\<close>

definition FlowStep_forward_shape ::
  "nat \<times> nat \<Rightarrow> bool \<Rightarrow> bool \<Rightarrow> shp \<Rightarrow> shp option \<Rightarrow> bool \<Rightarrow> error + shp \<times> shp option"
  where
  "FlowStep_forward_shape st ini invt x sldj reverse =
     (case st of (in_channels, mid_channels) \<Rightarrow>
        if reverse then
          bnd (Coupling_forward_shape (in_channels div 2) mid_channels ini x sldj reverse)
            (\<lambda>(x, sldj).
          bnd (InvConv_forward_shape in_channels invt x sldj reverse) (\<lambda>(x, sldj).
          ActNorm_forward_shape in_channels ini x sldj reverse))
        else
          bnd (ActNorm_forward_shape in_channels ini x sldj reverse) (\<lambda>(x, sldj).
          bnd (InvConv_forward_shape in_channels invt x sldj reverse) (\<lambda>(x, sldj).
          Coupling_forward_shape (in_channels div 2) mid_channels ini x sldj reverse)))"

fun steps_forward_shape ::
  "(nat \<times> nat) list \<Rightarrow> bool \<Rightarrow> bool \<Rightarrow> shp \<Rightarrow> shp option \<Rightarrow> bool \<Rightarrow> error + shp \<times> shp option"
  where
  "steps_forward_shape [] ini invt x sldj reverse = Inr (x, sldj)"
| "steps_forward_shape (step # steps) ini invt x sldj reverse =
     bnd (FlowStep_forward_shape step ini invt x sldj reverse) (\<lambda>(x, sldj).
       steps_forward_shape steps ini invt x sldj reverse)"

text \<open>
  One level of \<open>_Glow\<close>: the constructor arguments of its steps, and the next level
  when there is one.
\<close>

datatype glow_s = Glow_s (steps_s: "(nat \<times> nat) list") (next_s: "glow_s option")

fun Glow_level_init_shape :: "nat \<Rightarrow> nat \<Rightarrow> nat \<Rightarrow> nat \<Rightarrow> glow_s" where
  "Glow_level_init_shape in_channels mid_channels num_levels num_steps =
     Glow_s (replicate num_steps (in_channels, mid_channels))
       (if num_levels > 1
        then Some (Glow_level_init_shape (4 * in_channels) mid_channels (num_levels - 1) num_steps)
        else None)"

fun Glow_level_forward_shape ::
  "glow_s \<Rightarrow> bool \<Rightarrow> bool \<Rightarrow> shp \<Rightarrow> shp option \<Rightarrow> bool \<Rightarrow> error + shp \<times> shp option"
  where
  "Glow_level_forward_shape (Glow_s steps nxt) ini invt x sldj reverse =
     bnd (if \<not> reverse then
            bnd (steps_forward_shape steps ini invt x sldj reverse) (\<lambda>(x, sldj).
            bnd (squeeze_shape x False) (\<lambda>x. Inr (x, sldj)))
          else Inr (x, sldj)) (\<lambda>(x, sldj).
     bnd (case nxt of
            None \<Rightarrow> Inr (x, sldj)
          | Some n \<Rightarrow> Glow_level_forward_shape n ini invt x sldj reverse) (\<lambda>(x, sldj).
     if reverse then
       bnd (squeeze_shape x reverse) (\<lambda>x.
       steps_forward_shape (rev steps) ini invt x sldj reverse)
     else Inr (x, sldj)))"

text \<open>
  \<open>t.view(x.size(0), -1).sum(1, keepdim=True)\<close> for \<open>t\<close> of the shape of \<open>x\<close>:
  the inferred dimension is ambiguous when \<open>x.size(0)\<close> is 0.
\<close>

definition batch_sum_shape :: "shp \<Rightarrow> error + shp" where
  "batch_sum_shape x =
     (case x of [] \<Rightarrow> Inl IndexError
      | b # rest \<Rightarrow> if b = 0 then Inl RuntimeError else Inr [b, 1])"

definition LogitTransform_inverse_shape :: "shp \<Rightarrow> shp option \<Rightarrow> error + shp \<times> shp option" where
  "LogitTransform_inverse_shape y sldj =
     (case sldj of
        None \<Rightarrow> Inr (y, None)
      | Some l \<Rightarrow> bnd (batch_sum_shape y) (\<lambda>d. bnd (bcast l d) (\<lambda>l. Inr (y, Some l))))"

definition LogitTransform_forward_shape ::
  "shp \<Rightarrow> shp option \<Rightarrow> bool \<Rightarrow> error + shp \<times> shp option" where
  "LogitTransform_forward_shape x sldj reverse =
     (if reverse then LogitTransform_inverse_shape x sldj
      else case sldj of
             None \<Rightarrow> Inr (x, None)
           | Some l \<Rightarrow>
               bnd (batch_sum_shape x) (\<lambda>d.
               bnd (view_shape d [prod_list d]) (\<lambda>d.
               bnd (bcast l d) (\<lambda>l. Inr (x, Some l)))))"

text \<open>
  \<open>Glow(in_channels, num_channels, num_levels, num_steps, params)\<close> builds its levels
  with \<open>_Glow(in_channels * 4, num_channels, num_levels, num_steps, params)\<close>.
\<close>

definition Glow_init_shape :: "nat \<Rightarrow> nat \<Rightarrow> nat \<Rightarrow> nat \<Rightarrow> glow_s" where
  "Glow_init_shape in_channels num_channels num_levels num_steps =
     Glow_level_init_shape (in_channels * 4) num_channels num_levels num_steps"

definition Glow_forward_shape ::
  "glow_s \<Rightarrow> bool \<Rightarrow> bool \<Rightarrow> shp \<Rightarrow> shp option \<Rightarrow> bool \<Rightarrow> error + shp \<times> shp option"
  where
  "Glow_forward_shape flows ini invt x sldj reverse =
     bnd (if \<not> reverse then
            bnd (LogitTransform_forward_shape x sldj False) (\<lambda>(x, sldj).
            bnd (squeeze_shape x False) (\<lambda>x. Inr (x, sldj)))
          else Inr (x, sldj)) (\<lambda>(x, sldj).
     bnd (Glow_level_forward_shape flows ini invt x sldj reverse) (\<lambda>(x, sldj).
     if reverse then
       bnd (squeeze_shape x True) (\<lambda>x.
       LogitTransform_forward_shape x sldj True)
     else Inr (x, sldj)))"

section \<open>ActNorm\<close>

text \<open>
  The layer's state. \<open>is_initialized\<close> is the one-element buffer, \<open>training\<close> the
  mode of the module. The flag \<open>return_ldj\<close> only selects what \<open>forward\<close> hands
  back (the pair, or the tensor alone): \<open>ActNorm_forward\<close> returns the pair, and the
  callers built with \<open>return_ldj=False\<close> (the conditioner) take the tensor from it.
\<close>

record ActNorm =
  is_initialized :: real
  bias :: "real tensor"
  logs :: "real tensor"
  num_features :: nat
  scale :: real
  eps :: real
  training :: bool

text \<open>\<open>ActNorm(num_features, scale)\<close>; a new module is in training mode.\<close>

definition ActNorm_init :: "nat \<Rightarrow> real \<Rightarrow> ActNorm" where
  "ActNorm_init n sc =
     \<lparr>is_initialized = 0, bias = zeros [1, n, 1, 1], logs = zeros [1, n, 1, 1],
      num_features = n, scale = sc, eps = 1 / 1000000, training = True\<rparr>"

definition initialize_parameters :: "ActNorm \<Rightarrow> real tensor \<Rightarrow> error + ActNorm" where
  "initialize_parameters self x =
     (if \<not> training self then Inr self
      else
        bnd (mean_dim x [0, 2, 3] True) (\<lambda>m.
        let bias' = tmap uminus m in
        bnd (bop (+) x bias') (\<lambda>xc.
        bnd (mean_dim (tmap (\<lambda>a. a\<^sup>2) xc) [0, 2, 3] True) (\<lambda>v.
        bnd (sqrt_t v) (\<lambda>sd.
        bnd (rdiv_t (scale self) (tmap (\<lambda>a. a + eps self) sd)) (\<lambda>q.
        bnd (log_t q) (\<lambda>logs'.
        bnd (copy_into (bias self) bias') (\<lambda>b.
        bnd (copy_into (logs self) logs') (\<lambda>l.
        Inr (self\<lparr>bias := b, logs := l, is_initialized := is_initialized self + 1\<rparr>))))))))))"

definition center :: "ActNorm \<Rightarrow> real tensor \<Rightarrow> bool \<Rightarrow> error + real tensor" where
  "center self x reverse =
     (if reverse then bop (-) x (bias self) else bop (+) x (bias self))"

definition scale_fn ::
  "ActNorm \<Rightarrow> real tensor \<Rightarrow> real tensor option \<Rightarrow> bool
   \<Rightarrow> error + real tensor \<times> real tensor option" where
  "scale_fn self x sldj reverse =
     bnd (if reverse then bop (*) x (tmap exp (tmap (\<lambda>a. a * (- 1)) (logs self)))
          else bop (*) x (tmap exp (logs self))) (\<lambda>x.
     case sldj of
       None \<Rightarrow> Inr (x, None)
     | Some sldj \<Rightarrow>
         if length (shape x) < 4 then Inl IndexError
         else
           let ldj = scalar (sum_list (dat (logs self)) * real (shape x ! 2) * real (shape x ! 3))
           in bnd (if reverse then bop (-) sldj ldj else bop (+) sldj ldj) (\<lambda>sldj.
              Inr (x, Some sldj)))"

definition ActNorm_forward ::
  "ActNorm \<Rightarrow> real tensor \<Rightarrow> real tensor option \<Rightarrow> bool
   \<Rightarrow> error + ActNorm \<times> real tensor \<times> real tensor option" where
  "ActNorm_forward self x ldj reverse =
     bnd (if is_initialized self = 0 then initialize_parameters self x else Inr self) (\<lambda>self.
     if reverse then
       bnd (scale_fn self x ldj reverse) (\<lambda>(x, ldj).
       bnd (center self x reverse) (\<lambda>x. Inr (self, x, ldj)))
     else
       bnd (center self x reverse) (\<lambda>x.
       bnd (scale_fn self x ldj reverse) (\<lambda>(x, ldj). Inr (self, x, ldj))))"

section \<open>Convolution and InvConv\<close>

text \<open>
  The input of a convolution with \<open>pad\<close> rows and columns of zeros around each
  channel.
\<close>

definition padded :: "real tensor \<Rightarrow> nat \<Rightarrow> nat \<Rightarrow> nat \<Rightarrow> nat \<Rightarrow> nat \<Rightarrow> real" where
  "padded x pad n ci y z =
     (if pad \<le> y \<and> y < shape x ! 2 + pad \<and> pad \<le> z \<and> z < shape x ! 3 + pad
      then get x [n, ci, y - pad, z - pad] else 0)"

text \<open>
  \<open>F.conv2d(x, w, b, padding=pad)\<close> with stride 1, on a 4-D input: a cross-correlation.
  Any other input raises (releases of the library that also take a 3-D input without batch
  dimension are not modelled; no such input reaches a convolution of this program).
\<close>

definition conv2d ::
  "real tensor \<Rightarrow> real tensor \<Rightarrow> real tensor option \<Rightarrow> nat \<Rightarrow> error + real tensor" where
  "conv2d x w b pad =
     (case (shape x, shape w) of
        ([n, c, h, wd], [co, i, kh, kw]) \<Rightarrow>
          if c \<noteq> i \<or> h + 2 * pad < kh \<or> wd + 2 * pad < kw
             \<or> (case b of None \<Rightarrow> False | Some bt \<Rightarrow> shape bt \<noteq> [co])
          then Inl RuntimeError
          else Inr (tabulate [n, co, h + 2 * pad + 1 - kh, wd + 2 * pad + 1 - kw]
                 (\<lambda>idx. (case b of None \<Rightarrow> 0 | Some bt \<Rightarrow> get bt [idx ! 1])
                    + (\<Sum>ci\<leftarrow>[0..<c]. \<Sum>u\<leftarrow>[0..<kh]. \<Sum>v\<leftarrow>[0..<kw].
                         get w [idx ! 1, ci, u, v]
                           * padded x pad (idx ! 0) ci (idx ! 2 + u) (idx ! 3 + v))))
      | _ \<Rightarrow> Inl RuntimeError)"

record InvConv =
  num_channels :: nat
  weight :: "real tensor"

text \<open>
  \<open>InvConv(num_channels)\<close>: the weight is drawn at random, the orthogonal factor of a
  matrix of normal deviates; it is the argument \<open>w\<close>, of shape
  \<open>(num_channels, num_channels)\<close>.
\<close>

definition InvConv_init :: "nat \<Rightarrow> real tensor \<Rightarrow> InvConv" where
  "InvConv_init n w = \<lparr>num_channels = n, weight = w\<rparr>"

text \<open>
  \<open>InvConv.forward\<close>. The two functions of the linear-algebra library are arguments of
  the model: \<open>slogdet w\<close> is \<open>torch.slogdet(w)[1]\<close>, the logarithm of the absolute
  value of the determinant, and \<open>inv_fn w\<close> is \<open>torch.inverse(w)\<close>; either may raise.
\<close>

definition InvConv_forward ::
  "(real tensor \<Rightarrow> error + real) \<Rightarrow> (real tensor \<Rightarrow> error + real tensor)
   \<Rightarrow> InvConv \<Rightarrow> real tensor \<Rightarrow> real tensor option \<Rightarrow> bool
   \<Rightarrow> error + real tensor \<times> real tensor option" where
  "InvConv_forward slogdet inv_fn self x sldj reverse =
     bnd (case sldj of
            None \<Rightarrow> Inr None
          | Some sldj \<Rightarrow>
              bnd (slogdet (weight self)) (\<lambda>d.
              if length (shape x) < 4 then Inl IndexError
              else
                let ldj = scalar (d * real (shape x ! 2) * real (shape x ! 3))
                in bnd (if reverse then bop (-) sldj ldj else bop (+) sldj ldj) (\<lambda>sldj.
                   Inr (Some sldj)))) (\<lambda>sldj.
     bnd (if reverse then inv_fn (weight self) else Inr (weight self)) (\<lambda>weight.
     bnd (view weight [num_channels self, num_channels self, 1, 1]) (\<lambda>weight.
     bnd (conv2d x weight None 0) (\<lambda>z. Inr (z, sldj)))))"

section \<open>The coupling layer\<close>

text \<open>
  The conditioner. Its norm layers are ActNorm layers (\<open>params.batchnorm\<close> is false;
  the two command lines cannot set it: their flag \<open>--batchnorm\<close> stores False and
  defaults to False), built with \<open>return_ldj=False\<close>. A convolution is its weight, of
  shape \<open>(out, in, k, k)\<close>; only \<open>out_conv\<close> has a bias.
\<close>

record NN =
  in_norm :: ActNorm
  in_conv :: "real tensor"
  mid_conv1 :: "real tensor"
  mid_norm :: ActNorm
  mid_conv2 :: "real tensor"
  out_norm :: ActNorm
  out_conv_weight :: "real tensor"
  out_conv_bias :: "real tensor"

text \<open>
  \<open>NN(in_channels, mid_channels, out_channels, params)\<close>. The weights of the first three
  convolutions are drawn at random: they are the arguments \<open>w1\<close>, \<open>w2\<close>, \<open>w3\<close>,
  of shapes \<open>(mid, in, 3, 3)\<close>, \<open>(mid, mid, 3, 3)\<close> and \<open>(mid, mid, 1, 1)\<close>.
\<close>

definition NN_init ::
  "nat \<Rightarrow> nat \<Rightarrow> nat \<Rightarrow> real tensor \<Rightarrow> real tensor \<Rightarrow> real tensor \<Rightarrow> NN" where
  "NN_init in_channels mid_channels out_channels w1 w2 w3 =
     \<lparr>in_norm = ActNorm_init in_channels 1,
      in_conv = w1,
      mid_conv1 = w2,
      mid_norm = ActNorm_init mid_channels 1,
      mid_conv2 = w3,
      out_norm = ActNorm_init mid_channels 1,
      out_conv_weight = zeros [out_channels, mid_channels, 3, 3],
      out_conv_bias = zeros [out_channels]\<rparr>"

text \<open>
  The parameters of an ActNorm layer for \<open>c\<close> channels have the shapes the constructor
  gives them, and \<open>scale\<close> and \<open>eps\<close> are positive.
\<close>

definition norm_ok :: "nat \<Rightarrow> ActNorm \<Rightarrow> bool" where
  "norm_ok c n \<longleftrightarrow>
     shape (bias n) = [1, c, 1, 1] \<and> shape (logs n) = [1, c, 1, 1] \<and> 0 < scale n \<and> 0 < eps n"

definition relu :: "real tensor \<Rightarrow> real tensor" where
  "relu x = tmap (max 0) x"

definition NN_forward :: "NN \<Rightarrow> real tensor \<Rightarrow> error + NN \<times> real tensor" where
  "NN_forward self x =
     bnd (ActNorm_forward (in_norm self) x None False) (\<lambda>(n1, x, _).
     bnd (conv2d x (in_conv self) None 1) (\<lambda>x1.
     bnd (conv2d x (in_conv self) None 1) (\<lambda>x.
     bnd (conv2d (relu x) (mid_conv1 self) None 1) (\<lambda>x.
     bnd (ActNorm_forward (mid_norm self) x None False) (\<lambda>(n2, x, _).
     bnd (conv2d (relu x) (mid_conv2 self) None 0) (\<lambda>x.
     bnd (ActNorm_forward (out_norm self) x None False) (\<lambda>(n3, x, _).
     bnd (conv2d (relu x) (out_conv_weight self) (Some (out_conv_bias self)) 1) (\<lambda>x.
     Inr (self\<lparr>in_norm := n1, mid_norm := n2, out_norm := n3\<rparr>, x)))))))))"

text \<open>\<open>x.narrow(1, start, len)\<close>, the pieces \<open>chunk\<close> returns.\<close>

definition narrow1 :: "'a tensor \<Rightarrow> nat \<Rightarrow> nat \<Rightarrow> 'a tensor" where
  "narrow1 x start len =
     tabulate ((shape x)[1 := len]) (\<lambda>idx. get x (idx[1 := idx ! 1 + start]))"

text \<open>
  \<open>x.chunk(2, dim=1)\<close> unpacked into two names: pieces of size \<open>\<lceil>c / 2\<rceil>\<close>; one
  piece only when \<open>c = 1\<close>.
\<close>

definition chunk2 :: "'a tensor \<Rightarrow> error + 'a tensor \<times> 'a tensor" where
  "chunk2 x =
     (case shape x of
        b # c # rest \<Rightarrow>
          if c = 1 then Inl ValueError
          else Inr (narrow1 x 0 ((c + 1) div 2), narrow1 x ((c + 1) div 2) (c - (c + 1) div 2))
      | _ \<Rightarrow> Inl IndexError)"

text \<open>\<open>st[:, start::2, ...]\<close> for \<open>start\<close> 0 or 1.\<close>

definition strided1 :: "'a tensor \<Rightarrow> nat \<Rightarrow> error + 'a tensor" where
  "strided1 st start =
     (case shape st of
        b # c # rest \<Rightarrow>
          Inr (tabulate (b # ((c + 1 - start) div 2) # rest)
                 (\<lambda>idx. get st (idx[1 := 2 * (idx ! 1) + start])))
      | _ \<Rightarrow> Inl IndexError)"

text \<open>\<open>s.flatten(1).sum(-1)\<close>\<close>

definition flatten_sum :: "real tensor \<Rightarrow> error + real tensor" where
  "flatten_sum s =
     (case shape s of
        b # c # rest \<Rightarrow>
          bnd (view s [b, prod_list (c # rest)]) (\<lambda>f.
          Inr (tabulate [b] (\<lambda>idx. \<Sum>k\<leftarrow>[0..<prod_list (c # rest)]. get f [idx ! 0, k])))
      | _ \<Rightarrow> Inl IndexError)"

text \<open>\<open>torch.cat((a, b), dim=1)\<close>\<close>

definition cat1 :: "'a tensor \<Rightarrow> 'a tensor \<Rightarrow> error + 'a tensor" where
  "cat1 a b =
     (case (shape a, shape b) of
        (n # c # r, n' # c' # r') \<Rightarrow>
          if n = n' \<and> r = r'
          then Inr (tabulate (n # (c + c') # r)
                 (\<lambda>idx. if idx ! 1 < c then get a idx else get b (idx[1 := idx ! 1 - c])))
          else Inl RuntimeError
      | _ \<Rightarrow> Inl RuntimeError)"

record Coupling =
  nn :: NN
  coupling_scale :: "real tensor"

text \<open>\<open>Coupling(in_channels, mid_channels, params)\<close>\<close>

definition Coupling_init ::
  "nat \<Rightarrow> nat \<Rightarrow> real tensor \<Rightarrow> real tensor \<Rightarrow> real tensor \<Rightarrow> Coupling" where
  "Coupling_init in_channels mid_channels w1 w2 w3 =
     \<lparr>nn = NN_init in_channels mid_channels (2 * in_channels) w1 w2 w3,
      coupling_scale = ones [in_channels, 1, 1]\<rparr>"

definition Coupling_forward ::
  "Coupling \<Rightarrow> real tensor \<Rightarrow> real tensor option \<Rightarrow> bool
   \<Rightarrow> error + Coupling \<times> real tensor \<times> real tensor option" where
  "Coupling_forward self x ldj reverse =
     bnd (chunk2 x) (\<lambda>(x_change, x_id).
     bnd (NN_forward (nn self) x_id) (\<lambda>(nn', st).
     bnd (strided1 st 0) (\<lambda>s.
     bnd (strided1 st 1) (\<lambda>t.
     bnd (bop (*) (coupling_scale self) (tmap tanh s)) (\<lambda>s.
     bnd (if reverse then
            bnd (bop (*) x_change (tmap exp (tmap (\<lambda>a. a * (- 1)) s))) (\<lambda>x_change.
            bop (-) x_change t)
          else
            bnd (bop (+) x_change t) (\<lambda>x_change.
            bop (*) x_change (tmap exp s))) (\<lambda>x_change.
     bnd (case ldj of
            None \<Rightarrow> Inr None
          | Some ldj \<Rightarrow>
              bnd (flatten_sum s) (\<lambda>d.
              bnd (if reverse then bop (-) ldj d else bop (+) ldj d) (\<lambda>ldj.
              Inr (Some ldj)))) (\<lambda>ldj.
     bnd (cat1 x_change x_id) (\<lambda>x.
     Inr (self\<lparr>nn := nn'\<rparr>, x, ldj)))))))))"

section \<open>Flow steps, levels and the model\<close>

record FlowStep =
  norm_layer :: ActNorm
  conv :: InvConv
  coup :: Coupling

text \<open>
  The weights a flow step draws at random when it is built: the matrix of its InvConv and
  the three convolutions of its conditioner.
\<close>

type_synonym draws = "real tensor \<times> real tensor \<times> real tensor \<times> real tensor"

text \<open>\<open>_FlowStep(in_channels, mid_channels, params)\<close>\<close>

definition FlowStep_init :: "nat \<Rightarrow> nat \<Rightarrow> draws \<Rightarrow> FlowStep" where
  "FlowStep_init in_channels mid_channels d =
     (case d of (w, w1, w2, w3) \<Rightarrow>
        \<lparr>norm_layer = ActNorm_init in_channels 1,
         conv = InvConv_init in_channels w,
         coup = Coupling_init (in_channels div 2) mid_channels w1 w2 w3\<rparr>)"

definition FlowStep_forward ::
  "(real tensor \<Rightarrow> error + real) \<Rightarrow> (real tensor \<Rightarrow> error + real tensor)
   \<Rightarrow> FlowStep \<Rightarrow> real tensor \<Rightarrow> real tensor option \<Rightarrow> bool
   \<Rightarrow> error + FlowStep \<times> real tensor \<times> real tensor option" where
  "FlowStep_forward slogdet inv_fn self x sldj reverse =
     (if reverse then
        bnd (Coupling_forward (coup self) x sldj reverse) (\<lambda>(cp, x, sldj).
        bnd (InvConv_forward slogdet inv_fn (conv self) x sldj reverse) (\<lambda>(x, sldj).
        bnd (ActNorm_forward (norm_layer self) x sldj reverse) (\<lambda>(an, x, sldj).
        Inr (self\<lparr>coup := cp, norm_layer := an\<rparr>, x, sldj))))
      else
        bnd (ActNorm_forward (norm_layer self) x sldj reverse) (\<lambda>(an, x, sldj).
        bnd (InvConv_forward slogdet inv_fn (conv self) x sldj reverse) (\<lambda>(x, sldj).
        bnd (Coupling_forward (coup self) x sldj reverse) (\<lambda>(cp, x, sldj).
        Inr (self\<lparr>norm_layer := an, coup := cp\<rparr>, x, sldj)))))"

text \<open>The loop over the steps of a level, in the order of the list given.\<close>

fun steps_forward ::
  "(real tensor \<Rightarrow> error + real) \<Rightarrow> (real tensor \<Rightarrow> error + real tensor)
   \<Rightarrow> FlowStep list \<Rightarrow> real tensor \<Rightarrow> real tensor option \<Rightarrow> bool
   \<Rightarrow> error + FlowStep list \<times> real tensor \<times> real tensor option" where
  "steps_forward slogdet inv_fn [] x sldj reverse = Inr ([], x, sldj)"
| "steps_forward slogdet inv_fn (step # steps) x sldj reverse =
     bnd (FlowStep_forward slogdet inv_fn step x sldj reverse) (\<lambda>(step, x, sldj).
     bnd (steps_forward slogdet inv_fn steps x sldj reverse) (\<lambda>(steps, x, sldj).
     Inr (step # steps, x, sldj)))"

text \<open>One level of \<open>_Glow\<close>: its steps, and the next level when there is one.\<close>

datatype glow = Glow_level "FlowStep list" "glow option"

text \<open>
  \<open>_Glow(in_channels, mid_channels, num_levels, num_steps, params)\<close>; \<open>rnd c i\<close>
  are the weights drawn for step \<open>i\<close> of the level with \<open>c\<close> input channels.
\<close>

fun Glow_level_init :: "nat \<Rightarrow> nat \<Rightarrow> nat \<Rightarrow> nat \<Rightarrow> (nat \<Rightarrow> nat \<Rightarrow> draws) \<Rightarrow> glow" where
  "Glow_level_init in_channels mid_channels num_levels num_steps rnd =
     Glow_level (map (\<lambda>i. FlowStep_init in_channels mid_channels (rnd in_channels i))
                   [0..<num_steps])
       (if num_levels > 1
        then Some (Glow_level_init (4 * in_channels) mid_channels (num_levels - 1) num_steps rnd)
        else None)"

fun Glow_level_forward ::
  "(real tensor \<Rightarrow> error + real) \<Rightarrow> (real tensor \<Rightarrow> error + real tensor)
   \<Rightarrow> glow \<Rightarrow> real tensor \<Rightarrow> real tensor option \<Rightarrow> bool
   \<Rightarrow> error + glow \<times> real tensor \<times> real tensor option" where
  "Glow_level_forward slogdet inv_fn (Glow_level steps nxt) x sldj reverse =
     bnd (if \<not> reverse then
            bnd (steps_forward slogdet inv_fn steps x sldj reverse) (\<lambda>(steps, x, sldj).
            bnd (squeeze x False) (\<lambda>x. Inr (steps, x, sldj)))
          else Inr (steps, x, sldj)) (\<lambda>(steps, x, sldj).
     bnd (case nxt of
            None \<Rightarrow> Inr (None, x, sldj)
          | Some n \<Rightarrow>
              bnd (Glow_level_forward slogdet inv_fn n x sldj reverse) (\<lambda>(n, x, sldj).
              Inr (Some n, x, sldj))) (\<lambda>(nxt, x, sldj).
     if reverse then
       bnd (squeeze x reverse) (\<lambda>x.
       bnd (steps_forward slogdet inv_fn (rev steps) x sldj reverse) (\<lambda>(steps, x, sldj).
       Inr (Glow_level (rev steps) nxt, x, sldj)))
     else Inr (Glow_level steps nxt, x, sldj)))"

subsection \<open>LogitTransform\<close>

definition alpha :: real where
  "alpha = 1 / 1000000"

definition logdetgrad :: "real tensor \<Rightarrow> error + real tensor" where
  "logdetgrad x =
     bnd (log_t (tmap (\<lambda>a. let s = alpha + (1 - 2 * alpha) * a in s - s * s) x)) (\<lambda>l.
     Inr (tmap (\<lambda>a. - a + ln (1 - 2 * alpha)) l))"

text \<open>
  \<open>t.view(x.size(0), -1).sum(1, keepdim=True)\<close> for \<open>t\<close> of the shape of \<open>x\<close>:
  the inferred dimension is ambiguous when \<open>x.size(0)\<close> is 0.
\<close>

definition batch_sum :: "real tensor \<Rightarrow> error + real tensor" where
  "batch_sum t =
     (case shape t of
        [] \<Rightarrow> Inl IndexError
      | b # rest \<Rightarrow>
          if b = 0 then Inl RuntimeError
          else bnd (view t [b, prod_list rest]) (\<lambda>f.
               Inr (tabulate [b, 1] (\<lambda>idx. \<Sum>k\<leftarrow>[0..<prod_list rest]. get f [idx ! 0, k]))))"

definition LogitTransform_inverse ::
  "real tensor \<Rightarrow> real tensor option \<Rightarrow> error + real tensor \<times> real tensor option" where
  "LogitTransform_inverse y sldj =
     (let x = tmap (\<lambda>a. (1 / (1 + exp (- a)) - alpha) / (1 - 2 * alpha)) y in
      case sldj of
        None \<Rightarrow> Inr (x, None)
      | Some sldj \<Rightarrow>
          bnd (logdetgrad x) (\<lambda>g.
          bnd (batch_sum g) (\<lambda>d.
          bnd (bop (-) sldj d) (\<lambda>sldj. Inr (x, Some sldj)))))"

definition LogitTransform_forward ::
  "real tensor \<Rightarrow> real tensor option \<Rightarrow> bool \<Rightarrow> error + real tensor \<times> real tensor option"
  where
  "LogitTransform_forward x sldj reverse =
     (if reverse then LogitTransform_inverse x sldj
      else
        let s = tmap (\<lambda>a. alpha + (1 - 2 * alpha) * a) x in
        bnd (log_t s) (\<lambda>ls.
        bnd (log_t (tmap (\<lambda>a. 1 - a) s)) (\<lambda>l1.
        bnd (bop (-) ls l1) (\<lambda>y.
        case sldj of
          None \<Rightarrow> Inr (y, None)
        | Some sldj \<Rightarrow>
            bnd (logdetgrad x) (\<lambda>g.
            bnd (batch_sum g) (\<lambda>d.
            bnd (view d [prod_list (shape d)]) (\<lambda>d.
            bnd (bop (+) sldj d) (\<lambda>sldj. Inr (y, Some sldj)))))))))"

subsection \<open>Glow\<close>

text \<open>\<open>Glow(in_channels, num_channels, num_levels, num_steps, params)\<close>\<close>

definition Glow_init :: "nat \<Rightarrow> nat \<Rightarrow> nat \<Rightarrow> nat \<Rightarrow> (nat \<Rightarrow> nat \<Rightarrow> draws) \<Rightarrow> glow" where
  "Glow_init in_channels mid_channels num_levels num_steps rnd =
     Glow_level_init (in_channels * 4) mid_channels num_levels num_steps rnd"

definition Glow_forward ::
  "(real tensor \<Rightarrow> error + real) \<Rightarrow> (real tensor \<Rightarrow> error + real tensor)
   \<Rightarrow> glow \<Rightarrow> real tensor \<Rightarrow> real tensor option \<Rightarrow> bool
   \<Rightarrow> error + glow \<times> real tensor \<times> real tensor option" where
  "Glow_forward slogdet inv_fn flows x sldj reverse =
     bnd (if \<not> reverse then
            bnd (LogitTransform_forward x sldj False) (\<lambda>(x, sldj).
            bnd (squeeze x False) (\<lambda>x. Inr (x, sldj)))
          else Inr (x, sldj)) (\<lambda>(x, sldj).
     bnd (Glow_level_forward slogdet inv_fn flows x sldj reverse) (\<lambda>(flows, x, sldj).
     if reverse then
       bnd (squeeze x True) (\<lambda>x.
       bnd (LogitTransform_forward x sldj True) (\<lambda>(x, sldj). Inr (flows, x, sldj)))
     else Inr (flows, x, sldj)))"

section \<open>Tensors and their shapes\<close>

text \<open>
  The functions on shapes are compared with the functions on tensors by \<open>agrees\<close>: the
  function on tensors stops with \<open>NonFinite\<close>, or it ends as the function on shapes
  says, with the same exception or with a result of the shape computed (\<open>ab\<close> maps the
  result to its shapes).
\<close>

definition agrees :: "('v \<Rightarrow> 's) \<Rightarrow> error + 'v \<Rightarrow> error + 's \<Rightarrow> bool" where
  "agrees ab r rs \<longleftrightarrow> r = Inl NonFinite \<or> map_sum id ab r = rs"

definition out2 :: "real tensor \<times> real tensor option \<Rightarrow> shp \<times> shp option" where
  "out2 = map_prod shape (map_option shape)"

definition out3 :: "'st \<times> real tensor \<times> real tensor option \<Rightarrow> shp \<times> shp option" where
  "out3 = out2 \<circ> snd"

text \<open>
  What the constructors establish, and the functions on shapes take as arguments: the
  shapes of the parameters of an ActNorm layer for \<open>C\<close> channels, with \<open>ini\<close> true
  when the next call initialises the layer; the initialisation divides by
  \<open>sqrt v + eps\<close> and takes the logarithm of \<open>scale\<close> over it, with \<open>scale\<close>
  and \<open>eps\<close> positive.
\<close>

definition norm_shaped :: "nat \<Rightarrow> bool \<Rightarrow> ActNorm \<Rightarrow> bool" where
  "norm_shaped C ini n \<longleftrightarrow>
     shape (bias n) = [1, C, 1, 1] \<and> shape (logs n) = [1, C, 1, 1]
     \<and> (ini \<longleftrightarrow> is_initialized n = 0 \<and> training n)
     \<and> (ini \<longrightarrow> 0 < scale n \<and> 0 < eps n)"

text \<open>
  An InvConv layer for \<open>C\<close> channels: \<open>slogdet\<close> returns a number on its weight, and
  \<open>inv_fn\<close> returns a matrix of the same size when \<open>invt\<close> is true and raises
  otherwise.
\<close>

definition conv_shaped ::
  "nat \<Rightarrow> bool \<Rightarrow> (real tensor \<Rightarrow> error + real) \<Rightarrow> (real tensor \<Rightarrow> error + real tensor)
   \<Rightarrow> InvConv \<Rightarrow> bool" where
  "conv_shaped C invt slogdet inv_fn cv \<longleftrightarrow>
     num_channels cv = C \<and> prod_list (shape (weight cv)) = C * C
     \<and> (\<exists>d. slogdet (weight cv) = Inr d)
     \<and> (if invt then \<exists>wi. inv_fn (weight cv) = Inr wi \<and> prod_list (shape wi) = C * C
         else inv_fn (weight cv) = Inl RuntimeError)"

definition nn_shaped :: "nat \<Rightarrow> nat \<Rightarrow> nat \<Rightarrow> bool \<Rightarrow> NN \<Rightarrow> bool" where
  "nn_shaped cin mid cout ini n \<longleftrightarrow>
     norm_shaped cin ini (in_norm n) \<and> norm_shaped mid ini (mid_norm n)
     \<and> norm_shaped mid ini (out_norm n)
     \<and> shape (in_conv n) = [mid, cin, 3, 3] \<and> shape (mid_conv1 n) = [mid, mid, 3, 3]
     \<and> shape (mid_conv2 n) = [mid, mid, 1, 1]
     \<and> shape (out_conv_weight n) = [cout, mid, 3, 3] \<and> shape (out_conv_bias n) = [cout]"

definition coupling_shaped :: "nat \<Rightarrow> nat \<Rightarrow> bool \<Rightarrow> Coupling \<Rightarrow> bool" where
  "coupling_shaped k mid ini cp \<longleftrightarrow>
     nn_shaped k mid (2 * k) ini (nn cp) \<and> shape (coupling_scale cp) = [k, 1, 1]"

definition step_shaped ::
  "bool \<Rightarrow> bool \<Rightarrow> (real tensor \<Rightarrow> error + real) \<Rightarrow> (real tensor \<Rightarrow> error + real tensor)
   \<Rightarrow> FlowStep \<Rightarrow> nat \<times> nat \<Rightarrow> bool" where
  "step_shaped ini invt slogdet inv_fn st cm \<longleftrightarrow>
     (case cm of (C, mid) \<Rightarrow>
        norm_shaped C ini (norm_layer st) \<and> conv_shaped C invt slogdet inv_fn (conv st)
        \<and> coupling_shaped (C div 2) mid ini (coup st))"

fun glow_shaped :: "(FlowStep \<Rightarrow> nat \<times> nat \<Rightarrow> bool) \<Rightarrow> glow \<Rightarrow> glow_s \<Rightarrow> bool" where
  "glow_shaped P (Glow_level steps None) (Glow_s ss None) \<longleftrightarrow> list_all2 P steps ss"
| "glow_shaped P (Glow_level steps (Some n)) (Glow_s ss (Some m)) \<longleftrightarrow>
     list_all2 P steps ss \<and> glow_shaped P n m"
| "glow_shaped P _ _ \<longleftrightarrow> False"

text \<open>
  The weights drawn for a flow step with \<open>C\<close> channels have the shapes the constructors
  give them, and the two functions of the linear-algebra library behave on the matrix as
  \<open>conv_shaped\<close> says.
\<close>

definition draws_shaped ::
  "nat \<Rightarrow> nat \<Rightarrow> bool \<Rightarrow> (real tensor \<Rightarrow> error + real) \<Rightarrow> (real tensor \<Rightarrow> error + real tensor)
   \<Rightarrow> draws \<Rightarrow> bool" where
  "draws_shaped C mid invt slogdet inv_fn d \<longleftrightarrow>
     (case d of (w, w1, w2, w3) \<Rightarrow>
        conv_shaped C invt slogdet inv_fn (InvConv_init C w)
        \<and> shape w1 = [mid, C div 2, 3, 3] \<and> shape w2 = [mid, mid, 3, 3]
        \<and> shape w3 = [mid, mid, 1, 1])"
section \<open>Discriminator rejection sampling\<close>

text \<open>
  The scalars of \<open>generate.py\<close> are float32 tensors of one element. A value is a finite
  number, an infinity or NaN (no signed zero); a finite value is the real number it stands
  for.
\<close>

datatype fl = Fin real | PInf | NInf | NaN

text \<open>
  Rounding to float32. \<open>rne\<close> rounds a real number to the nearest integer, a tie to the
  even one. \<open>f32 x\<close> rounds \<open>x\<close> to the nearest multiple of \<open>2 ^ (l - 23)\<close>, where
  \<open>2 ^ l \<le> |x| < 2 ^ (l + 1)\<close> (a significand of 24 bits) and \<open>l\<close> is at least
  \<open>- 126\<close> (below \<open>2 ^ (- 126)\<close> the values are subnormal, multiples of
  \<open>2 ^ (- 149)\<close>); a result beyond the largest float32 number is an infinity.
\<close>

definition f32_max :: real where
  "f32_max = (2 ^ 24 - 1) * 2 ^ 104"

definition rne :: "real \<Rightarrow> int" where
  "rne y = (let f = \<lfloor>y\<rfloor>; d = y - of_int f
            in if d < 1 / 2 then f else if 1 / 2 < d then f + 1
               else if even f then f else f + 1)"

definition f32 :: "real \<Rightarrow> fl" where
  "f32 x =
     (if x = 0 then Fin 0
      else
        let e = max \<lfloor>log 2 \<bar>x\<bar>\<rfloor> (- 126) - 23;
            r = of_int (rne (x / 2 powr of_int e)) * 2 powr of_int e
        in if f32_max < \<bar>r\<bar> then (if 0 < r then PInf else NInf) else Fin r)"

text \<open>
  The operations: on finite values the exact result rounded to float32, on the other
  values the rules of IEEE 754. The library functions \<open>torch.log\<close> and
  \<open>torch.sigmoid\<close> are taken as correctly rounded, and so is the conversion to
  float32 of \<open>np.exp(args.eps_drs)\<close>, which is computed in double precision.
\<close>

fun fneg :: "fl \<Rightarrow> fl" where
  "fneg (Fin a) = Fin (- a)"
| "fneg PInf = NInf"
| "fneg NInf = PInf"
| "fneg NaN = NaN"

fun fadd :: "fl \<Rightarrow> fl \<Rightarrow> fl" where
  "fadd NaN _ = NaN"
| "fadd _ NaN = NaN"
| "fadd (Fin a) (Fin b) = f32 (a + b)"
| "fadd PInf NInf = NaN"
| "fadd NInf PInf = NaN"
| "fadd PInf _ = PInf"
| "fadd _ PInf = PInf"
| "fadd NInf _ = NInf"
| "fadd _ NInf = NInf"

definition fsub :: "fl \<Rightarrow> fl \<Rightarrow> fl" where
  "fsub a b = fadd a (fneg b)"













section \<open>Index arithmetic\<close>

lemma ravel_less: "valid s idx \<Longrightarrow> ravel s idx < prod_list s"
  unfolding valid_def
proof (induction idx s rule: list_all2_induct)
  case Nil
  then show ?case by simp
next
  case (Cons i idx n s)
  have "i * prod_list s + ravel s idx < i * prod_list s + prod_list s" using Cons by simp
  also have "\<dots> = Suc i * prod_list s" by simp
  also have "\<dots> \<le> n * prod_list s" using Cons(1) by (intro mult_le_mono1) simp
  finally show ?case by simp
qed

lemma unravel_ravel: "valid s idx \<Longrightarrow> unravel s (ravel s idx) = idx"
  unfolding valid_def
proof (induction idx s rule: list_all2_induct)
  case Nil
  then show ?case by simp
next
  case (Cons i idx n s)
  have r: "ravel s idx < prod_list s" using Cons(2) ravel_less by (simp add: valid_def)
  then show ?case using Cons by simp
qed

lemma valid_unravel: "k < prod_list s \<Longrightarrow> valid s (unravel s k)"
proof (induction s arbitrary: k)
  case Nil
  then show ?case by (simp add: valid_def)
next
  case (Cons n s)
  have p: "0 < prod_list s" using Cons.prems by (cases "prod_list s") auto
  have "k div prod_list s < n" using Cons.prems p
    by (simp add: less_mult_imp_div_less mult.commute)
  moreover have "valid s (unravel s (k mod prod_list s))" using p by (intro Cons.IH) simp
  ultimately show ?case by (simp add: valid_def)
qed

lemma ravel_unravel: "k < prod_list s \<Longrightarrow> ravel s (unravel s k) = k"
proof (induction s arbitrary: k)
  case Nil
  then show ?case by simp
next
  case (Cons n s)
  have p: "0 < prod_list s" using Cons.prems by (cases "prod_list s") auto
  then show ?case using Cons.IH[of "k mod prod_list s"] by simp
qed

lemma get_tabulate: "valid s idx \<Longrightarrow> get (tabulate s f) idx = f idx"
  by (simp add: get_def tabulate_def ravel_less unravel_ravel)

lemma shape_tabulate [simp]: "shape (tabulate s f) = s"
  by (simp add: tabulate_def)

lemma length_dat_tabulate [simp]: "length (dat (tabulate s f)) = prod_list s"
  by (simp add: tabulate_def)

lemma dat_tabulate: "k < prod_list s \<Longrightarrow> dat (tabulate s f) ! k = f (unravel s k)"
  by (simp add: tabulate_def)

lemma wf_tabulate: "wf_tensor (tabulate s f)"
  by (simp add: wf_tensor_def tabulate_def)

lemma tensor_eqI:
  assumes "wf_tensor x" "wf_tensor y" "shape x = shape y"
    and "\<And>idx. valid (shape x) idx \<Longrightarrow> get x idx = get y idx"
  shows "x = y"
proof -
  have "dat x = dat y"
  proof (rule nth_equalityI)
    show "length (dat x) = length (dat y)" using assms by (simp add: wf_tensor_def)
  next
    fix k assume "k < length (dat x)"
    then have k: "k < prod_list (shape x)" using assms by (simp add: wf_tensor_def)
    have "get x (unravel (shape x) k) = get y (unravel (shape x) k)"
      using assms(4) valid_unravel[OF k] by simp
    then show "dat x ! k = dat y ! k"
      using assms(3) k by (simp add: get_def ravel_unravel)
  qed
  then show ?thesis using assms(3) by simp
qed

declare ravel.simps [simp del] unravel.simps [simp del]

section \<open>squeeze: index lemmas\<close>


lemma valid6:
  "valid [a0, a1, a2, a3, a4, a5] idx \<longleftrightarrow>
     (\<exists>i0 i1 i2 i3 i4 i5. idx = [i0, i1, i2, i3, i4, i5] \<and> i0 < a0 \<and> i1 < a1 \<and> i2 < a2 \<and>
        i3 < a3 \<and> i4 < a4 \<and> i5 < a5)"
  by (auto simp: valid_def list_all2_Cons2)

lemma upt6: "[0..<6] = [0, 1, 2, 3, 4, 5]"
  by (simp add: upt_rec)

lemma perm_idx_squeeze:
  "perm_idx [0, 1, 3, 5, 2, 4] [i0, i1, i2, i3, i4, i5] = [i0, i1, i4, i2, i5, i3]"
  by (simp add: perm_idx_def upt6)

lemma perm_idx_unsqueeze:
  "perm_idx [0, 1, 4, 2, 5, 3] [i0, i1, i2, i3, i4, i5] = [i0, i1, i3, i5, i2, i4]"
  by (simp add: perm_idx_def upt6)

lemma squeeze_fwd:
  assumes "shape x = [b, c, 2 * h, 2 * w]"
  shows "squeeze x False = Inr ((tabulate [b, c, 2, 2, h, w]
            (\<lambda>idx. get (x\<lparr>shape := [b, c, h, 2, w, 2]\<rparr>) (perm_idx [0, 1, 3, 5, 2, 4] idx)))
            \<lparr>shape := [b, c * 2 * 2, h, w]\<rparr>)"
  using assms by (simp add: squeeze_def bnd_def permute_def upt6 view_def)

lemma squeeze_rev:
  assumes "shape y = [b, c * 2 * 2, h, w]"
  shows "squeeze y True = Inr ((tabulate [b, c, h, 2, w, 2]
            (\<lambda>idx. get (y\<lparr>shape := [b, c, 2, 2, h, w]\<rparr>) (perm_idx [0, 1, 4, 2, 5, 3] idx)))
            \<lparr>shape := [b, c, h * 2, w * 2]\<rparr>)"
  using assms by (simp add: squeeze_def bnd_def permute_def upt6 view_def)

lemma squeeze_roundtrip_aux:
  assumes "wf_tensor x" "shape x = [b, c, 2 * h, 2 * w]"
  shows "bnd (squeeze x False) (\<lambda>y. squeeze y True) = Inr x"
proof -
  let ?A = "[b, c, h, 2, w, 2]" and ?B = "[b, c, 2, 2, h, w]"
  let ?F = "\<lambda>idx. get (x\<lparr>shape := ?A\<rparr>) (perm_idx [0, 1, 3, 5, 2, 4] idx)"
  let ?y = "(tabulate ?B ?F)\<lparr>shape := [b, c * 2 * 2, h, w]\<rparr>"
  let ?G = "\<lambda>idx. get (?y\<lparr>shape := ?B\<rparr>) (perm_idx [0, 1, 4, 2, 5, 3] idx)"
  let ?z = "(tabulate ?A ?G)\<lparr>shape := [b, c, h * 2, w * 2]\<rparr>"
  have y: "squeeze x False = Inr ?y" by (rule squeeze_fwd[OF assms(2)])
  have z: "squeeze ?y True = Inr ?z" by (rule squeeze_rev) simp
  have yB: "?y\<lparr>shape := ?B\<rparr> = tabulate ?B ?F" by (simp add: tabulate_def)
  have len: "length (dat x) = prod_list ?A" using assms by (simp add: wf_tensor_def)
  have "dat ?z = dat x"
  proof (rule nth_equalityI)
    show "length (dat ?z) = length (dat x)" using len by simp
  next
    fix k assume "k < length (dat ?z)"
    then have k: "k < prod_list ?A" by simp
    from valid_unravel[OF k] obtain i0 i1 i2 i3 i4 i5 where
      u: "unravel ?A k = [i0, i1, i2, i3, i4, i5]" and
      b: "i0 < b" "i1 < c" "i2 < h" "i3 < 2" "i4 < w" "i5 < 2"
      unfolding valid6 by blast
    have vB: "valid ?B [i0, i1, i3, i5, i2, i4]" using b unfolding valid6 by simp
    have "dat ?z ! k = dat (tabulate ?A ?G) ! k" by simp
    also have "\<dots> = ?G (unravel ?A k)" by (rule dat_tabulate[OF k])
    also have "\<dots> = get (tabulate ?B ?F) [i0, i1, i3, i5, i2, i4]"
      unfolding yB u perm_idx_unsqueeze ..
    also have "\<dots> = ?F [i0, i1, i3, i5, i2, i4]" by (rule get_tabulate[OF vB])
    also have "\<dots> = dat x ! ravel ?A (unravel ?A k)"
      unfolding u perm_idx_squeeze by (simp add: get_def)
    also have "\<dots> = dat x ! k" by (simp only: ravel_unravel[OF k])
    finally show "dat ?z ! k = dat x ! k" .
  qed
  then have zx: "?z = x" using assms(2) by (simp add: mult.commute)
  have "bnd (squeeze x False) (\<lambda>y. squeeze y True) = squeeze ?y True"
    by (simp only: y bnd_def sum.case)
  also have "\<dots> = Inr ?z" by (rule z)
  also have "\<dots> = Inr x" by (simp only: zx)
  finally show ?thesis .
qed

section \<open>Shapes: evaluation and errors\<close>

lemmas shape_eval =
  bnd_def bcast_def broadcast_shapes_def copy_shape_def view_shape_def permute_shape_def
  squeeze_shape_def mean_shape_def mean_dim_shape_def initialize_parameters_shape_def
  center_shape_def scale_shape_def ActNorm_forward_shape_def conv_shape_def
  InvConv_forward_shape_def norm_shape_def NN_forward_shape_def chunk2_shape_def
  strided1_shape_def flatten_sum_shape_def cat1_shape_def Coupling_forward_shape_def
  FlowStep_forward_shape_def batch_sum_shape_def LogitTransform_inverse_shape_def
  LogitTransform_forward_shape_def Glow_init_shape_def Glow_forward_shape_def upt6

lemma odd_view_mismatch:
  assumes "odd h \<or> odd w" "0 < b * c * h * w"
  shows "b * c * (h div 2) * 2 * (w div 2) * 2 \<noteq> b * c * h * (w::nat)"
proof -
  have pos: "0 < b * c" "0 < h" "0 < w" using assms(2) by auto
  have le: "h div 2 * 2 \<le> h" "w div 2 * 2 \<le> w" by simp_all
  have "(h div 2 * 2) * (w div 2 * 2) < h * w"
  proof (cases "odd h")
    case True
    then have "h div 2 * 2 < h" by presburger
    then have "(h div 2 * 2) * (w div 2 * 2) \<le> (h - 1) * w"
      using le(2) by (intro mult_mono) auto
    also have "\<dots> < h * w" using pos by simp
    finally show ?thesis .
  next
    case False
    then have "odd w" using assms(1) by simp
    then have "w div 2 * 2 < w" by presburger
    then have "(h div 2 * 2) * (w div 2 * 2) \<le> h * (w - 1)"
      using le(1) by (intro mult_mono) auto
    also have "\<dots> < h * w" using pos by simp
    finally show ?thesis .
  qed
  then have "(b * c) * ((h div 2 * 2) * (w div 2 * 2)) < (b * c) * (h * w)"
    using pos(1) by simp
  then show ?thesis by (simp add: mult_ac)
qed

lemma squeeze_odd:
  assumes "shape x = [b, c, h, w]" "odd h \<or> odd w" "0 < b * c * h * w"
  shows "squeeze x False = Inl RuntimeError"
  using odd_view_mismatch[OF assms(2,3)] assms(1)
  by (simp add: squeeze_def view_def bnd_def mult_ac)

lemma squeeze_shape_odd:
  assumes "odd h \<or> odd w" "0 < b * c * h * w"
  shows "squeeze_shape [b, c, h, w] False = Inl RuntimeError"
  using odd_view_mismatch[OF assms]
  by (simp add: squeeze_shape_def view_shape_def bnd_def mult_ac)

lemma coupling_three:
  assumes "0 < mid" "0 < h" "0 < w"
  shows "Coupling_forward_shape 1 mid ini [b, 3, h, w] (Some [b]) reverse
          = Inr ([b, 3, h, w], Some [b])"
  using assms by (simp add: shape_eval)

lemma coupling_odd:
  assumes "2 \<le> k"
  shows "Coupling_forward_shape k mid ini [b, 2 * k + 1, h, w] ldj reverse = Inl RuntimeError"
  using assms by (auto simp add: shape_eval split: option.splits sum.splits)

lemma coupling_one:
  shows "Coupling_forward_shape 0 mid ini [b, 1, h, w] ldj reverse = Inl ValueError"
  by (simp add: shape_eval)
section \<open>Rejection sampling: rounding and the acceptance probability\<close>

lemma rne_int [simp]: "rne (of_int k) = k"
  by (simp add: rne_def)

lemma rne_bounds: "y - 1 / 2 \<le> of_int (rne y)" "of_int (rne y) \<le> y + 1 / 2"
  by (auto simp: rne_def Let_def; linarith)+


lemma f32_0 [simp]: "f32 0 = Fin 0"
  by (simp add: f32_def)

lemma f32_max_ge: "3 \<le> f32_max"
proof -
  have "(1::real) \<le> 2 ^ 104" by (rule one_le_power) simp
  then have "(2 ^ 24 - 1) * (1::real) \<le> (2 ^ 24 - 1) * 2 ^ 104"
    by (intro mult_left_mono) simp_all
  then show ?thesis unfolding f32_max_def by simp
qed

lemma powr_neg_nat: "(2::real) powr (- real n) = 1 / 2 ^ n"
proof -
  have "(2::real) powr (- real n) = inverse (2 powr real n)" by (rule powr_minus)
  also have "(2::real) powr real n = 2 ^ n" by (rule powr_realpow) simp
  finally show ?thesis by (simp add: divide_inverse)
qed

lemma powr_m23: "2 powr of_int (- 23) = 1 / (2 ^ 23 :: real)"
proof -
  have "(of_int (- 23) :: real) = - real 23" by simp
  then show ?thesis by (simp only: powr_neg_nat)
qed


lemma floor_log2_binade1:
  assumes "1 \<le> x" "x < 2"
  shows "\<lfloor>log 2 \<bar>x\<bar>\<rfloor> = 0"
proof -
  have "0 \<le> log 2 x" using assms by simp
  moreover have "log 2 x < 1" using assms by (simp add: log_less_one_cancel_iff)
  ultimately show ?thesis using assms by (simp add: floor_eq_iff)
qed

lemma f32_binade1:
  assumes "1 \<le> x" "x < 2"
  shows "f32 x = Fin (of_int (rne (x * 2 ^ 23)) / 2 ^ 23)"
proof -
  let ?k = "of_int (rne (x * 2 ^ 23)) :: real"
  have "?k \<le> x * 2 ^ 23 + 1 / 2" "x * 2 ^ 23 - 1 / 2 \<le> ?k"
    by (rule rne_bounds)+
  then have "0 \<le> ?k" "?k \<le> 3 * 2 ^ 23" using assms by simp_all
  then have "\<bar>?k / 2 ^ 23\<bar> \<le> 3" by (simp add: field_simps)
  then have m: "\<not> f32_max < \<bar>?k / 2 ^ 23\<bar>" using f32_max_ge by linarith
  have e: "max \<lfloor>log 2 \<bar>x\<bar>\<rfloor> (- 126) - 23 = - 23"
    unfolding floor_log2_binade1[OF assms] by simp
  have x: "x \<noteq> 0" using assms by simp
  have d: "x / (1 / 2 ^ 23) = x * 2 ^ 23" by simp
  have t: "?k * (1 / 2 ^ 23) = ?k / 2 ^ 23" by simp
  show ?thesis
    unfolding f32_def Let_def e powr_m23 d t using x m by (simp only: if_False)
qed

lemma f32_1 [simp]: "f32 1 = Fin 1"
proof -
  have "rne (1 * 2 ^ 23) = 2 ^ 23" using rne_int[of "2 ^ 23"] by simp
  then show ?thesis using f32_binade1[of 1] by simp
qed





lemma fsub_NaN [simp]: "fsub x NaN = NaN"
  by (cases x) (simp_all add: fsub_def)

lemma NaN_fsub [simp]: "fsub NaN x = NaN"
  by (simp add: fsub_def)









section \<open>Tensor operations\<close>

lemma valid4:
  "valid [a0, a1, a2, a3] idx \<longleftrightarrow>
     (\<exists>i0 i1 i2 i3. idx = [i0, i1, i2, i3] \<and> i0 < a0 \<and> i1 < a1 \<and> i2 < a2 \<and> i3 < a3)"
  by (auto simp: valid_def list_all2_Cons2)

lemma valid_length: "valid s idx \<Longrightarrow> length idx = length s"
  by (simp add: valid_def list_all2_lengthD)

lemma valid_nth: "valid s idx \<Longrightarrow> i < length s \<Longrightarrow> idx ! i < s ! i"
  by (simp add: valid_def list_all2_conv_all_nth)

lemma valid_update:
  assumes "valid (s[d := n]) idx" "k < s ! d" "d < length s"
  shows "valid s (idx[d := k])"
  using assms unfolding valid_def list_all2_conv_all_nth
  by (auto simp: nth_list_update)

lemma set_dat_tabulate:
  assumes "a \<in> set (dat (tabulate s f))"
  shows "\<exists>idx. valid s idx \<and> a = f idx"
proof -
  from assms obtain k where "k < prod_list s" "a = f (unravel s k)"
    by (auto simp: tabulate_def)
  then show ?thesis using valid_unravel by blast
qed

lemma get_in_set: "wf_tensor t \<Longrightarrow> valid (shape t) idx \<Longrightarrow> get t idx \<in> set (dat t)"
  by (simp add: get_def wf_tensor_def ravel_less)

lemma shape_tmap [simp]: "shape (tmap f t) = shape t"
  by (simp add: tmap_def)

lemma dat_tmap [simp]: "dat (tmap f t) = map f (dat t)"
  by (simp add: tmap_def)

lemma wf_tmap [simp]: "wf_tensor (tmap f t) = wf_tensor t"
  by (simp add: wf_tensor_def)

lemma get_tmap: "wf_tensor t \<Longrightarrow> valid (shape t) idx \<Longrightarrow> get (tmap f t) idx = f (get t idx)"
  by (simp add: get_def wf_tensor_def ravel_less)

lemma bidx_same: "valid s idx \<Longrightarrow> bidx s idx = idx"
  unfolding bidx_def valid_def
proof (induction idx s rule: list_all2_induct)
  case Nil
  then show ?case by simp
next
  case (Cons i idx n s)
  then have "length idx = length s" by (simp add: list_all2_lengthD)
  then show ?case using Cons by auto
qed

lemma tabulate_get: "wf_tensor t \<Longrightarrow> tabulate (shape t) (get t) = t"
  by (rule tensor_eqI) (simp_all add: wf_tabulate get_tabulate)

lemma tabulate_cong: "(\<And>idx. valid s idx \<Longrightarrow> f idx = g idx) \<Longrightarrow> tabulate s f = tabulate s g"
  by (rule tensor_eqI) (simp_all add: wf_tabulate get_tabulate)

lemma bshape_rev_same: "bshape_rev s s = Some s"
  by (induction s) auto

lemma broadcast_same [simp]: "broadcast_shapes s s = Some s"
  by (simp add: broadcast_shapes_def bshape_rev_same)

lemma broadcast_nil [simp]: "broadcast_shapes s [] = Some s"
  by (cases "rev s") (simp_all add: broadcast_shapes_def)

lemma broadcast_c4 [simp]:
  "broadcast_shapes [b, c, h, w] [Suc 0, c, Suc 0, Suc 0] = Some [b, c, h, w]"
  by (simp add: broadcast_shapes_def)

lemma copy_into_same:
  assumes "wf_tensor src" "shape src = shape dst"
  shows "copy_into dst src = Inr src"
proof -
  have "tabulate (shape src) (\<lambda>idx. get src (bidx (shape src) idx)) = tabulate (shape src) (get src)"
    by (rule tabulate_cong) (simp add: bidx_same)
  also have "\<dots> = src" by (rule tabulate_get[OF assms(1)])
  finally have "tabulate (shape dst) (\<lambda>idx. get src (bidx (shape src) idx)) = src"
    by (simp only: assms(2))
  then show ?thesis by (simp add: copy_into_def assms(2))
qed

lemma bop_scalar:
  assumes "wf_tensor t"
  shows "bop f t (scalar k) = Inr (tmap (\<lambda>a. f a k) t)"
proof -
  have "tabulate (shape t) (\<lambda>idx. f (get t (bidx (shape t) idx)) (get (scalar k) (bidx [] idx)))
        = tmap (\<lambda>a. f a k) t"
  proof (rule tensor_eqI)
    fix idx assume "valid (shape (tabulate (shape t)
       (\<lambda>idx. f (get t (bidx (shape t) idx)) (get (scalar k) (bidx [] idx))))) idx"
    then have v: "valid (shape t) idx" by simp
    have "get (scalar k) (bidx [] idx) = k"
      by (simp add: get_def scalar_def bidx_def ravel.simps)
    then show "get (tabulate (shape t)
       (\<lambda>idx. f (get t (bidx (shape t) idx)) (get (scalar k) (bidx [] idx)))) idx
       = get (tmap (\<lambda>a. f a k) t) idx"
      using v assms by (simp add: get_tabulate bidx_same get_tmap)
  qed (simp_all add: wf_tabulate assms)
  then show ?thesis by (simp add: bop_def scalar_def)
qed

lemma bidx_c4:
  "bidx [Suc 0, c, Suc 0, Suc 0] [i0, i1, i2, i3] = [0, if c = 1 then 0 else i1, 0, 0]"
  by (simp add: bidx_def)

lemma bop_c4:
  assumes "shape x = [b, c, h, w]" "shape p = [1, c, 1, 1]"
  shows "bop f x p = Inr (tabulate [b, c, h, w] (\<lambda>idx. f (get x idx) (get p [0, idx ! 1, 0, 0])))"
proof -
  have "tabulate [b, c, h, w] (\<lambda>idx. f (get x (bidx [b, c, h, w] idx)) (get p (bidx [1, c, 1, 1] idx)))
      = tabulate [b, c, h, w] (\<lambda>idx. f (get x idx) (get p [0, idx ! 1, 0, 0]))"
  proof (rule tabulate_cong)
    fix idx assume v: "valid [b, c, h, w] idx"
    then obtain i0 i1 i2 i3 where i: "idx = [i0, i1, i2, i3]" "i1 < c" unfolding valid4 by blast
    have "bidx [1, c, 1, 1] idx = [0, idx ! 1, 0, 0]" using i by (auto simp: bidx_c4)
    then show "f (get x (bidx [b, c, h, w] idx)) (get p (bidx [1, c, 1, 1] idx))
             = f (get x idx) (get p [0, idx ! 1, 0, 0])"
      by (simp add: bidx_same[OF v])
  qed
  then show ?thesis using assms by (simp add: bop_def)
qed

section \<open>ActNorm\<close>

lemma mean_ok:
  assumes "d < length (shape t)" "0 < shape t ! d"
  shows "mean t d = Inr (tabulate ((shape t)[d := 1])
           (\<lambda>idx. (\<Sum>k\<leftarrow>[0..<shape t ! d]. get t (idx[d := k])) / real (shape t ! d)))"
  using assms by (simp add: mean_def)

lemma mean_nonneg:
  assumes "wf_tensor t" "\<forall>a \<in> set (dat t). 0 \<le> a" "mean t d = Inr m"
  shows "\<forall>a \<in> set (dat m). 0 \<le> a"
proof
  fix a assume a: "a \<in> set (dat m)"
  from assms(3) have d: "d < length (shape t)"
    and m: "m = tabulate ((shape t)[d := 1])
           (\<lambda>idx. (\<Sum>k\<leftarrow>[0..<shape t ! d]. get t (idx[d := k])) / real (shape t ! d))"
    by (auto simp: mean_def split: if_splits)
  from set_dat_tabulate[OF a[unfolded m]] obtain idx where v: "valid ((shape t)[d := 1]) idx"
    and e: "a = (\<Sum>k\<leftarrow>[0..<shape t ! d]. get t (idx[d := k])) / real (shape t ! d)"
    by blast
  have "0 \<le> get t (idx[d := k])" if "k < shape t ! d" for k
    using assms(1,2) get_in_set valid_update[OF v that d] by blast
  then have "0 \<le> (\<Sum>k\<leftarrow>[0..<shape t ! d]. get t (idx[d := k]))"
    by (intro sum_list_nonneg) auto
  then show "0 \<le> a" unfolding e by simp
qed

lemma mean_dim_c4:
  assumes "shape x = [b, c, h, w]" "0 < b" "0 < h" "0 < w"
  shows "\<exists>m. mean_dim x [0, 2, 3] True = Inr m \<and> shape m = [1, c, 1, 1] \<and> wf_tensor m"
proof -
  let ?m0 = "tabulate [1, c, h, w] (\<lambda>idx. (\<Sum>k\<leftarrow>[0..<b]. get x (idx[0 := k])) / real b)"
  let ?m2 = "tabulate [1, c, 1, w] (\<lambda>idx. (\<Sum>k\<leftarrow>[0..<h]. get ?m0 (idx[2 := k])) / real h)"
  let ?m3 = "tabulate [1, c, 1, 1] (\<lambda>idx. (\<Sum>k\<leftarrow>[0..<w]. get ?m2 (idx[3 := k])) / real w)"
  have 0: "mean x 0 = Inr ?m0" using assms by (simp add: mean_ok)
  have 2: "mean ?m0 2 = Inr ?m2" using assms by (simp add: mean_ok)
  have 3: "mean ?m2 3 = Inr ?m3" using assms by (simp add: mean_ok)
  have s: "sort [0, 2, 3::nat] = [0, 2, 3]" by simp
  have "mean_dim x [0, 2, 3] True = Inr ?m3"
    unfolding mean_dim_def s means.simps 0 bnd_def sum.case 2 3 by simp
  then show ?thesis by (simp add: wf_tabulate)
qed

lemma mean_dim_nonneg:
  assumes "wf_tensor x" "\<forall>a \<in> set (dat x). 0 \<le> a" "mean_dim x [0, 2, 3] True = Inr m"
  shows "\<forall>a \<in> set (dat m). 0 \<le> a"
proof -
  from assms(3) obtain m0 m2 where
    0: "mean x 0 = Inr m0" and 2: "mean m0 2 = Inr m2" and 3: "mean m2 3 = Inr m"
    by (auto simp: mean_dim_def bnd_def split: sum.splits)
  have w0: "wf_tensor m0" using 0 by (auto simp: mean_def wf_tabulate split: if_splits)
  have w2: "wf_tensor m2" using 2 by (auto simp: mean_def wf_tabulate split: if_splits)
  show ?thesis
    using mean_nonneg[OF w2 mean_nonneg[OF w0 mean_nonneg[OF assms(1,2) 0] 2] 3] .
qed

lemma tmap_tmap: "tmap f (tmap g t) = tmap (\<lambda>a. f (g a)) t"
  by (simp add: tmap_def comp_def)

lemma sqrt_t_ok: "\<forall>a \<in> set (dat t). 0 \<le> a \<Longrightarrow> sqrt_t t = Inr (tmap sqrt t)"
  by (auto simp: sqrt_t_def)

lemma rdiv_t_ok: "\<forall>a \<in> set (dat t). a \<noteq> 0 \<Longrightarrow> rdiv_t c t = Inr (tmap (\<lambda>a. c / a) t)"
  by (auto simp: rdiv_t_def)

lemma log_t_ok: "\<forall>a \<in> set (dat t). 0 < a \<Longrightarrow> log_t t = Inr (tmap ln t)"
  by (auto simp: log_t_def)

lemma initialize_parameters_ok:
  assumes "wf_tensor x" "shape x = [b, c, h, w]" "0 < b" "0 < h" "0 < w"
    and "shape (bias self) = [1, c, 1, 1]" "shape (logs self) = [1, c, 1, 1]"
    and "training self" "0 < scale self" "0 < eps self"
  shows "\<exists>m xc v. mean_dim x [0, 2, 3] True = Inr m
          \<and> bop (+) x (tmap uminus m) = Inr xc
          \<and> mean_dim (tmap (\<lambda>a. a\<^sup>2) xc) [0, 2, 3] True = Inr v
          \<and> shape m = [1, c, 1, 1] \<and> wf_tensor m \<and> shape v = [1, c, 1, 1] \<and> wf_tensor v
          \<and> initialize_parameters self x
              = Inr (self\<lparr>bias := tmap uminus m,
                          logs := tmap (\<lambda>a. ln (scale self / (sqrt a + eps self))) v,
                          is_initialized := is_initialized self + 1\<rparr>)"
proof -
  from mean_dim_c4[OF assms(2-5)] obtain m where
    m: "mean_dim x [0, 2, 3] True = Inr m" "shape m = [1, c, 1, 1]" "wf_tensor m" by blast
  let ?xc = "tabulate [b, c, h, w] (\<lambda>idx. get x idx + get (tmap uminus m) [0, idx ! 1, 0, 0])"
  have xc: "bop (+) x (tmap uminus m) = Inr ?xc"
    by (rule bop_c4) (simp_all add: assms(2) m(2))
  let ?sq = "tmap (\<lambda>a. a\<^sup>2) ?xc"
  have sq: "shape ?sq = [b, c, h, w]" "wf_tensor ?sq" "\<forall>a \<in> set (dat ?sq). 0 \<le> a"
    by (simp_all add: wf_tabulate)
  from mean_dim_c4[OF sq(1) assms(3-5)] obtain v where
    v: "mean_dim ?sq [0, 2, 3] True = Inr v" "shape v = [1, c, 1, 1]" "wf_tensor v" by blast
  have vn: "\<forall>a \<in> set (dat v). 0 \<le> a" by (rule mean_dim_nonneg[OF sq(2,3) v(1)])
  have sd: "sqrt_t v = Inr (tmap sqrt v)" by (rule sqrt_t_ok[OF vn])
  have dpos: "\<forall>a \<in> set (dat (tmap (\<lambda>a. a + eps self) (tmap sqrt v))). 0 < a"
    using vn assms(10) by (auto intro: add_nonneg_pos)
  then have q: "rdiv_t (scale self) (tmap (\<lambda>a. a + eps self) (tmap sqrt v))
           = Inr (tmap (\<lambda>a. scale self / a) (tmap (\<lambda>a. a + eps self) (tmap sqrt v)))"
    by (intro rdiv_t_ok) auto
  have "\<forall>a \<in> set (dat (tmap (\<lambda>a. scale self / a) (tmap (\<lambda>a. a + eps self) (tmap sqrt v)))). 0 < a"
    using dpos assms(9) by auto
  then have l: "log_t (tmap (\<lambda>a. scale self / a) (tmap (\<lambda>a. a + eps self) (tmap sqrt v)))
           = Inr (tmap (\<lambda>a. ln (scale self / (sqrt a + eps self))) v)"
    by (simp add: log_t_ok tmap_tmap)
  have cb: "copy_into (bias self) (tmap uminus m) = Inr (tmap uminus m)"
    by (rule copy_into_same) (simp_all add: m assms(6))
  have cl: "copy_into (logs self) (tmap (\<lambda>a. ln (scale self / (sqrt a + eps self))) v)
          = Inr (tmap (\<lambda>a. ln (scale self / (sqrt a + eps self))) v)"
    by (rule copy_into_same) (simp_all add: v assms(7))
  have "initialize_parameters self x
        = Inr (self\<lparr>bias := tmap uminus m,
                    logs := tmap (\<lambda>a. ln (scale self / (sqrt a + eps self))) v,
                    is_initialized := is_initialized self + 1\<rparr>)"
    unfolding initialize_parameters_def Let_def m(1) bnd_def sum.case xc v(1) sd q l cb cl
    using assms(8) by simp
  then show ?thesis using m xc v by blast
qed

lemma bop_scalar_ex: "\<exists>r. bop f l (scalar k) = Inr r \<and> shape r = shape l \<and> wf_tensor r"
  by (simp add: bop_def scalar_def wf_tabulate)

lemma center_ok:
  assumes "shape x = [b, c, h, w]" "shape (bias self) = [1, c, 1, 1]"
  shows "center self x reverse = Inr (tabulate [b, c, h, w]
           (\<lambda>idx. (if reverse then (-) else (+)) (get x idx) (get (bias self) [0, idx ! 1, 0, 0])))"
  using bop_c4[OF assms, of "(-)"] bop_c4[OF assms, of "(+)"]
  by (simp add: center_def)

lemma scale_fn_None:
  assumes "shape x = [b, c, h, w]" "shape (logs self) = [1, c, 1, 1]"
  shows "scale_fn self x None reverse = Inr (tabulate [b, c, h, w]
           (\<lambda>idx. get x idx * get (tmap (\<lambda>a. exp (if reverse then a * (- 1) else a)) (logs self))
                                    [0, idx ! 1, 0, 0]), None)"
proof -
  have 1: "bop (*) x (tmap exp (tmap (\<lambda>a. a * (- 1)) (logs self)))
         = Inr (tabulate [b, c, h, w]
             (\<lambda>idx. get x idx * get (tmap (\<lambda>a. exp (a * (- 1))) (logs self)) [0, idx ! 1, 0, 0]))"
    unfolding tmap_tmap by (rule bop_c4) (simp_all add: assms)
  have 2: "bop (*) x (tmap exp (logs self))
         = Inr (tabulate [b, c, h, w]
             (\<lambda>idx. get x idx * get (tmap exp (logs self)) [0, idx ! 1, 0, 0]))"
    by (rule bop_c4) (simp_all add: assms)
  show ?thesis
    by (cases reverse) (simp_all only: scale_fn_def 1 2 bnd_def sum.case option.case if_True if_False)
qed

lemma scale_fn_ok:
  assumes "shape x = [b, c, h, w]" "shape (logs self) = [1, c, 1, 1]"
  shows "\<exists>y l. scale_fn self x sldj reverse = Inr (y, l) \<and> shape y = [b, c, h, w] \<and> wf_tensor y
             \<and> (sldj = None \<longleftrightarrow> l = None) \<and> scale_fn self x None reverse = Inr (y, None)"
proof (cases sldj)
  case None
  then show ?thesis using scale_fn_None[OF assms] by (simp add: wf_tabulate)
next
  case (Some l)
  let ?y = "tabulate [b, c, h, w]
           (\<lambda>idx. get x idx * get (tmap (\<lambda>a. exp (if reverse then a * (- 1) else a)) (logs self))
                                    [0, idx ! 1, 0, 0])"
  have n: "scale_fn self x None reverse = Inr (?y, None)" by (rule scale_fn_None[OF assms])
  then have x': "(if reverse then bop (*) x (tmap exp (tmap (\<lambda>a. a * (- 1)) (logs self)))
          else bop (*) x (tmap exp (logs self))) = Inr ?y"
    by (auto simp: scale_fn_def bnd_def split: sum.splits)
  let ?k = "sum_list (dat (logs self)) * real (shape ?y ! 2) * real (shape ?y ! 3)"
  from bop_scalar_ex[of "(-)" l ?k] bop_scalar_ex[of "(+)" l ?k] obtain r where
    "(if reverse then bop (-) l (scalar ?k) else bop (+) l (scalar ?k)) = Inr r"
    by (cases reverse) auto
  then have "scale_fn self x (Some l) reverse = Inr (?y, Some r)"
    unfolding scale_fn_def x' bnd_def sum.case option.case Let_def by simp
  then show ?thesis using Some n by (simp add: wf_tabulate)
qed

lemma ActNorm_apply:
  assumes "shape x = [b, c, h, w]" "shape (bias self) = [1, c, 1, 1]"
    "shape (logs self) = [1, c, 1, 1]"
  shows "\<exists>y l. (if reverse then
                  bnd (scale_fn self x ldj reverse) (\<lambda>(x, ldj).
                  bnd (center self x reverse) (\<lambda>x. Inr (self, x, ldj)))
                else
                  bnd (center self x reverse) (\<lambda>x.
                  bnd (scale_fn self x ldj reverse) (\<lambda>(x, ldj). Inr (self, x, ldj))))
               = Inr (self, y, l)
             \<and> shape y = [b, c, h, w] \<and> wf_tensor y \<and> (ldj = None \<longleftrightarrow> l = None)"
proof (cases reverse)
  case True
  from scale_fn_ok[OF assms(1,3), of ldj True] obtain y l where
    s: "scale_fn self x ldj True = Inr (y, l)" "shape y = [b, c, h, w]" "ldj = None \<longleftrightarrow> l = None"
    by blast
  show ?thesis
    using True by (simp add: s bnd_def center_ok[OF s(2) assms(2)] wf_tabulate)
next
  case False
  let ?y = "tabulate [b, c, h, w] (\<lambda>idx. get x idx + get (bias self) [0, idx ! 1, 0, 0])"
  have c: "center self x False = Inr ?y" using center_ok[OF assms(1,2), of False] by simp
  from scale_fn_ok[OF _ assms(3), of ?y b h w ldj False] obtain y l where
    s: "scale_fn self ?y ldj False = Inr (y, l)" "shape y = [b, c, h, w]" "wf_tensor y"
       "ldj = None \<longleftrightarrow> l = None"
    by auto
  from False have r: "reverse = False" by simp
  show ?thesis unfolding r if_False c bnd_def sum.case s(1) prod.case using s(2-4) by simp
qed

lemma ActNorm_forward_no_init:
  assumes "is_initialized self \<noteq> 0 \<or> \<not> training self"
    and "ActNorm_forward self x ldj reverse = Inr (self', y, l)"
  shows "self' = self"
proof -
  have "(if is_initialized self = 0 then initialize_parameters self x else Inr self) = Inr self"
    using assms(1) by (auto simp: initialize_parameters_def)
  then show ?thesis
    using assms(2) unfolding ActNorm_forward_def
    by (auto simp: bnd_def split: sum.splits if_splits prod.splits)
qed

lemma ActNorm_forward_ok:
  assumes "wf_tensor x" "shape x = [b, c, h, w]"
    and "shape (bias self) = [1, c, 1, 1]" "shape (logs self) = [1, c, 1, 1]"
    and "is_initialized self = 0 \<and> training self
           \<longrightarrow> 0 < b \<and> 0 < h \<and> 0 < w \<and> 0 < scale self \<and> 0 < eps self"
  shows "\<exists>self' y l. ActNorm_forward self x ldj reverse = Inr (self', y, l)
          \<and> shape y = [b, c, h, w] \<and> wf_tensor y \<and> (ldj = None \<longleftrightarrow> l = None)
          \<and> shape (bias self') = [1, c, 1, 1] \<and> shape (logs self') = [1, c, 1, 1]
          \<and> (if is_initialized self = 0 then initialize_parameters self x = Inr self'
              else self' = self)"
proof -
  have "\<exists>s. (if is_initialized self = 0 then initialize_parameters self x else Inr self) = Inr s
          \<and> shape (bias s) = [1, c, 1, 1] \<and> shape (logs s) = [1, c, 1, 1]"
  proof (cases "is_initialized self = 0 \<and> training self")
    case True
    with assms(5) have p: "0 < b" "0 < h" "0 < w" "0 < scale self" "0 < eps self" "training self"
      by simp_all
    from initialize_parameters_ok[OF assms(1,2) p(1-3) assms(3,4) p(6,4,5)] True
    show ?thesis by auto
  next
    case False
    then show ?thesis using assms(3,4) by (auto simp: initialize_parameters_def)
  qed
  then obtain s where
    s: "(if is_initialized self = 0 then initialize_parameters self x else Inr self) = Inr s"
       "shape (bias s) = [1, c, 1, 1]" "shape (logs s) = [1, c, 1, 1]" by blast
  from ActNorm_apply[OF assms(2) s(2,3), of reverse ldj] obtain y l where
    "(if reverse then
                  bnd (scale_fn s x ldj reverse) (\<lambda>(x, ldj).
                  bnd (center s x reverse) (\<lambda>x. Inr (s, x, ldj)))
                else
                  bnd (center s x reverse) (\<lambda>x.
                  bnd (scale_fn s x ldj reverse) (\<lambda>(x, ldj). Inr (s, x, ldj))))
               = Inr (s, y, l)" "shape y = [b, c, h, w]" "wf_tensor y" "ldj = None \<longleftrightarrow> l = None"
    by blast
  then have "ActNorm_forward self x ldj reverse = Inr (s, y, l)"
    unfolding ActNorm_forward_def s(1) bnd_def[of "Inr s"] sum.case by simp
  then show ?thesis using s \<open>shape y = [b, c, h, w]\<close> \<open>wf_tensor y\<close> \<open>ldj = None \<longleftrightarrow> l = None\<close>
    by (auto split: if_splits)
qed

lemma sum_list_upt_div:
  "(\<Sum>k\<leftarrow>[0..<n]. f k / (c::real)) = (\<Sum>k\<leftarrow>[0..<n]. f k) / c"
  by (induction n) (simp_all add: add_divide_distrib)

lemma mean_dim_c4_get:
  assumes "shape x = [b, c, h, w]" "0 < b" "0 < h" "0 < w"
    and "mean_dim x [0, 2, 3] True = Inr m" "j < c"
  shows "get m [0, j, 0, 0]
       = (\<Sum>n\<leftarrow>[0..<b]. \<Sum>y\<leftarrow>[0..<h]. \<Sum>z\<leftarrow>[0..<w]. get x [n, j, y, z]) / real (b * h * w)"
proof -
  let ?m0 = "tabulate [1, c, h, w] (\<lambda>idx. (\<Sum>k\<leftarrow>[0..<b]. get x (idx[0 := k])) / real b)"
  let ?m2 = "tabulate [1, c, 1, w] (\<lambda>idx. (\<Sum>k\<leftarrow>[0..<h]. get ?m0 (idx[2 := k])) / real h)"
  let ?m3 = "tabulate [1, c, 1, 1] (\<lambda>idx. (\<Sum>k\<leftarrow>[0..<w]. get ?m2 (idx[3 := k])) / real w)"
  have 0: "mean x 0 = Inr ?m0" using assms by (simp add: mean_ok)
  have 2: "mean ?m0 2 = Inr ?m2" using assms by (simp add: mean_ok)
  have 3: "mean ?m2 3 = Inr ?m3" using assms by (simp add: mean_ok)
  have s: "sort [0, 2, 3::nat] = [0, 2, 3]" by simp
  have "mean_dim x [0, 2, 3] True = Inr ?m3"
    unfolding mean_dim_def s means.simps 0 bnd_def sum.case 2 3 by simp
  then have m: "m = ?m3" using assms(5) by simp
  have g0: "get ?m0 [0, j, y, z] = (\<Sum>n\<leftarrow>[0..<b]. get x [n, j, y, z]) / real b"
    if "y < h" "z < w" for y z
    using that assms(6) by (simp add: get_tabulate valid4)
  have g2: "get ?m2 [0, j, 0, z] = (\<Sum>y\<leftarrow>[0..<h]. (\<Sum>n\<leftarrow>[0..<b]. get x [n, j, y, z]) / real b) / real h"
    if "z < w" for z
  proof -
    have "get ?m2 [0, j, 0, z] = (\<Sum>y\<leftarrow>[0..<h]. get ?m0 [0, j, y, z]) / real h"
      using that assms(6) by (simp add: get_tabulate valid4)
    also have "(\<Sum>y\<leftarrow>[0..<h]. get ?m0 [0, j, y, z])
             = (\<Sum>y\<leftarrow>[0..<h]. (\<Sum>n\<leftarrow>[0..<b]. get x [n, j, y, z]) / real b)"
      by (rule arg_cong[where f = sum_list], rule map_cong[OF refl]) (use g0 that in simp)
    finally show ?thesis .
  qed
  have "get m [0, j, 0, 0] = (\<Sum>z\<leftarrow>[0..<w]. get ?m2 [0, j, 0, z]) / real w"
    unfolding m using assms(6) by (simp add: get_tabulate valid4)
  also have "(\<Sum>z\<leftarrow>[0..<w]. get ?m2 [0, j, 0, z])
           = (\<Sum>z\<leftarrow>[0..<w]. (\<Sum>y\<leftarrow>[0..<h]. (\<Sum>n\<leftarrow>[0..<b]. get x [n, j, y, z]) / real b) / real h)"
    by (rule arg_cong[where f = sum_list], rule map_cong[OF refl]) (use g2 in simp)
  also have "\<dots> = (\<Sum>z\<leftarrow>[0..<w]. \<Sum>y\<leftarrow>[0..<h]. \<Sum>n\<leftarrow>[0..<b]. get x [n, j, y, z]) / real b / real h"
    by (simp add: sum_list_upt_div)
  also have "(\<Sum>z\<leftarrow>[0..<w]. \<Sum>y\<leftarrow>[0..<h]. \<Sum>n\<leftarrow>[0..<b]. get x [n, j, y, z])
           = (\<Sum>n\<leftarrow>[0..<b]. \<Sum>y\<leftarrow>[0..<h]. \<Sum>z\<leftarrow>[0..<w]. get x [n, j, y, z])"
  proof -
    have "(\<Sum>z\<leftarrow>[0..<w]. \<Sum>y\<leftarrow>[0..<h]. \<Sum>n\<leftarrow>[0..<b]. get x [n, j, y, z])
        = (\<Sum>z = 0..<w. \<Sum>y = 0..<h. \<Sum>n = 0..<b. get x [n, j, y, z])"
      by (simp add: interv_sum_list_conv_sum_set_nat)
    also have "\<dots> = (\<Sum>z = 0..<w. \<Sum>n = 0..<b. \<Sum>y = 0..<h. get x [n, j, y, z])"
      by (rule sum.cong[OF refl], rule sum.swap)
    also have "\<dots> = (\<Sum>n = 0..<b. \<Sum>z = 0..<w. \<Sum>y = 0..<h. get x [n, j, y, z])"
      by (rule sum.swap)
    also have "\<dots> = (\<Sum>n = 0..<b. \<Sum>y = 0..<h. \<Sum>z = 0..<w. get x [n, j, y, z])"
      by (rule sum.cong[OF refl], rule sum.swap)
    also have "\<dots> = (\<Sum>n\<leftarrow>[0..<b]. \<Sum>y\<leftarrow>[0..<h]. \<Sum>z\<leftarrow>[0..<w]. get x [n, j, y, z])"
      by (simp add: interv_sum_list_conv_sum_set_nat)
    finally show ?thesis .
  qed
  finally show ?thesis by (simp add: field_simps)
qed

lemma initialize_parameters_values:
  assumes "wf_tensor x" "shape x = [b, c, h, w]" "0 < b" "0 < h" "0 < w"
    and "shape (bias self) = [1, c, 1, 1]" "shape (logs self) = [1, c, 1, 1]"
    and "training self" "0 < scale self" "0 < eps self"
    and "initialize_parameters self x = Inr self'"
  shows "shape (bias self') = [1, c, 1, 1]" "wf_tensor (bias self')"
    "shape (logs self') = [1, c, 1, 1]" "wf_tensor (logs self')"
    "j < c \<Longrightarrow> get (bias self') [0, j, 0, 0]
       = - ((\<Sum>n\<leftarrow>[0..<b]. \<Sum>y\<leftarrow>[0..<h]. \<Sum>z\<leftarrow>[0..<w]. get x [n, j, y, z]) / real (b * h * w))"
    "j < c \<Longrightarrow> get (logs self') [0, j, 0, 0]
       = ln (scale self
             / (sqrt ((\<Sum>n\<leftarrow>[0..<b]. \<Sum>y\<leftarrow>[0..<h]. \<Sum>z\<leftarrow>[0..<w].
                         (get x [n, j, y, z] + get (bias self') [0, j, 0, 0])\<^sup>2)
                      / real (b * h * w))
                + eps self))"
proof -
  from initialize_parameters_ok[OF assms(1-10)] obtain m xc v where
    i: "mean_dim x [0, 2, 3] True = Inr m" "bop (+) x (tmap uminus m) = Inr xc"
       "mean_dim (tmap (\<lambda>a. a\<^sup>2) xc) [0, 2, 3] True = Inr v"
       "shape m = [1, c, 1, 1]" "wf_tensor m" "shape v = [1, c, 1, 1]" "wf_tensor v"
       "initialize_parameters self x
              = Inr (self\<lparr>bias := tmap uminus m,
                          logs := tmap (\<lambda>a. ln (scale self / (sqrt a + eps self))) v,
                          is_initialized := is_initialized self + 1\<rparr>)"
    by blast
  have s: "bias self' = tmap uminus m"
    "logs self' = tmap (\<lambda>a. ln (scale self / (sqrt a + eps self))) v"
    using i(8) assms(11) by auto
  show "shape (bias self') = [1, c, 1, 1]" "wf_tensor (bias self')"
    "shape (logs self') = [1, c, 1, 1]" "wf_tensor (logs self')"
    using i(4-7) by (simp_all add: s)
  {
    assume j: "j < c"
    have vj: "valid (shape m) [0, j, 0, 0]" "valid (shape v) [0, j, 0, 0]"
      using j by (simp_all add: i(4,6) valid4)
    have bj: "get (bias self') [0, j, 0, 0] = - get m [0, j, 0, 0]"
      unfolding s by (rule get_tmap[OF i(5) vj(1)])
    show b: "get (bias self') [0, j, 0, 0]
       = - ((\<Sum>n\<leftarrow>[0..<b]. \<Sum>y\<leftarrow>[0..<h]. \<Sum>z\<leftarrow>[0..<w]. get x [n, j, y, z]) / real (b * h * w))"
      unfolding bj mean_dim_c4_get[OF assms(2-5) i(1) j] ..
    have xc: "xc = tabulate [b, c, h, w]
                (\<lambda>idx. get x idx + get (tmap uminus m) [0, idx ! 1, 0, 0])"
      using bop_c4[of x b c h w "tmap uminus m" "(+)"] i(2) assms(2) i(4) by simp
    have wxc: "wf_tensor xc" "shape xc = [b, c, h, w]" by (simp_all add: xc wf_tabulate)
    have sq: "shape (tmap (\<lambda>a. a\<^sup>2) xc) = [b, c, h, w]" by (simp add: wxc)
    have g: "get (tmap (\<lambda>a. a\<^sup>2) xc) [n, j, y, z]
             = (get x [n, j, y, z] + get (bias self') [0, j, 0, 0])\<^sup>2"
      if "n < b" "y < h" "z < w" for n y z
    proof -
      have v: "valid (shape xc) [n, j, y, z]" using that j by (simp add: wxc valid4)
      have "get xc [n, j, y, z] = get x [n, j, y, z] + get (tmap uminus m) [0, j, 0, 0]"
        using v unfolding xc by (simp add: get_tabulate)
      then show ?thesis unfolding get_tmap[OF wxc(1) v] s by simp
    qed
    have "get (logs self') [0, j, 0, 0] = ln (scale self / (sqrt (get v [0, j, 0, 0]) + eps self))"
      unfolding s by (rule get_tmap[OF i(7) vj(2)])
    also have "get v [0, j, 0, 0]
        = (\<Sum>n\<leftarrow>[0..<b]. \<Sum>y\<leftarrow>[0..<h]. \<Sum>z\<leftarrow>[0..<w]. get (tmap (\<lambda>a. a\<^sup>2) xc) [n, j, y, z])
          / real (b * h * w)"
      by (rule mean_dim_c4_get[OF sq assms(3-5) i(3) j])
    also have "(\<Sum>n\<leftarrow>[0..<b]. \<Sum>y\<leftarrow>[0..<h]. \<Sum>z\<leftarrow>[0..<w]. get (tmap (\<lambda>a. a\<^sup>2) xc) [n, j, y, z])
        = (\<Sum>n\<leftarrow>[0..<b]. \<Sum>y\<leftarrow>[0..<h]. \<Sum>z\<leftarrow>[0..<w].
              (get x [n, j, y, z] + get (bias self') [0, j, 0, 0])\<^sup>2)"
      by (intro arg_cong[where f = sum_list] map_cong[OF refl]) (simp add: g)
    finally show "get (logs self') [0, j, 0, 0]
       = ln (scale self
             / (sqrt ((\<Sum>n\<leftarrow>[0..<b]. \<Sum>y\<leftarrow>[0..<h]. \<Sum>z\<leftarrow>[0..<w].
                         (get x [n, j, y, z] + get (bias self') [0, j, 0, 0])\<^sup>2)
                      / real (b * h * w))
                + eps self))" .
  }
qed

lemma tensor_1111:
  assumes "wf_tensor t" "shape t = [1, 1, 1, 1]"
  shows "t = \<lparr>shape = [1, 1, 1, 1], dat = [get t [0, 0, 0, 0]]\<rparr>"
proof -
  have "length (dat t) = 1" using assms by (simp add: wf_tensor_def)
  then obtain a where a: "dat t = [a]" by (cases "dat t") auto
  then have "get t [0, 0, 0, 0] = a" using assms(2) by (simp add: get_def ravel.simps)
  then show ?thesis using a assms(2) by (cases t) simp
qed

section \<open>InvConv\<close>

lemma conv2d_1x1:
  assumes "shape x = [n, c, h, wd]" "shape w = [co, c, 1, 1]" "0 < h" "0 < wd"
  shows "\<exists>z. conv2d x w None 0 = Inr z \<and> shape z = [n, co, h, wd] \<and> wf_tensor z"
  using assms by (simp add: conv2d_def wf_tabulate)

lemma InvConv_forward_sldj:
  assumes "shape x = [b, c, h, w]" "0 < h" "0 < w" "num_channels self = c"
    and "slogdet (weight self) = Inr d" "wf_tensor s"
    and "(if reverse then inv_fn (weight self) else Inr (weight self)) = Inr wt"
    and "prod_list (shape wt) = c * c"
  shows "\<exists>z. InvConv_forward slogdet inv_fn self x (Some s) reverse
               = Inr (z, Some (tmap (\<lambda>a. if reverse then a - d * real h * real w
                                          else a + d * real h * real w) s))
             \<and> shape z = [b, c, h, w] \<and> wf_tensor z"
proof -
  have v: "view wt [c, c, 1, 1] = Inr (wt\<lparr>shape := [c, c, 1, 1]\<rparr>)"
    using assms(8) by (simp add: view_def)
  from conv2d_1x1[OF assms(1) _ assms(2,3), of "wt\<lparr>shape := [c, c, 1, 1]\<rparr>" c] obtain z where
    z: "conv2d x (wt\<lparr>shape := [c, c, 1, 1]\<rparr>) None 0 = Inr z" "shape z = [b, c, h, w]" "wf_tensor z"
    by auto
  have "InvConv_forward slogdet inv_fn self x (Some s) reverse
               = Inr (z, Some (tmap (\<lambda>a. if reverse then a - d * real h * real w
                                          else a + d * real h * real w) s))"
    unfolding InvConv_forward_def assms(4,5,7) option.case bnd_def sum.case Let_def v z(1)
    using assms(1) by (cases reverse) (simp_all add: bop_scalar[OF assms(6)])
  then show ?thesis using z by blast
qed

lemma tmap_id: "tmap (\<lambda>a. a) t = t"
  by (simp add: tmap_def)

section \<open>The coupling layer\<close>

lemma shape_zeros [simp]: "shape (zeros s) = s"
  by (simp add: zeros_def)

lemma wf_zeros [simp]: "wf_tensor (zeros s)"
  by (simp add: zeros_def wf_tabulate)

lemma get_zeros: "valid s idx \<Longrightarrow> get (zeros s) idx = 0"
  by (simp add: zeros_def get_tabulate)

lemma tabulate_zero: "(\<And>idx. valid s idx \<Longrightarrow> f idx = 0) \<Longrightarrow> tabulate s f = zeros s"
  unfolding zeros_def by (rule tabulate_cong)

lemma tmap_zeros: "f 0 = 0 \<Longrightarrow> tmap f (zeros s) = zeros s"
  by (simp add: zeros_def tmap_def tabulate_def)

lemma tmap_exp_zeros: "tmap exp (zeros s) = tabulate s (\<lambda>_. 1)"
  by (simp add: zeros_def tmap_def tabulate_def)

lemma tabulate_get': "wf_tensor t \<Longrightarrow> shape t = s \<Longrightarrow> tabulate s (get t) = t"
  using tabulate_get by blast

lemma bop_same:
  assumes "shape x = s" "shape y = s"
  shows "bop f x y = Inr (tabulate s (\<lambda>idx. f (get x idx) (get y idx)))"
proof -
  have "tabulate s (\<lambda>idx. f (get x (bidx s idx)) (get y (bidx s idx)))
      = tabulate s (\<lambda>idx. f (get x idx) (get y idx))"
    by (rule tabulate_cong) (simp add: bidx_same)
  then show ?thesis using assms by (simp add: bop_def)
qed

lemma bop_add_zeros:
  assumes "wf_tensor x" "shape x = s"
  shows "bop (+) x (zeros s) = Inr x"
proof -
  have "tabulate s (\<lambda>idx. get x idx + get (zeros s) idx) = tabulate s (get x)"
    by (rule tabulate_cong) (simp add: get_zeros)
  then show ?thesis using assms bop_same[of x s "zeros s" "(+)"] by (simp add: tabulate_get')
qed

lemma bop_mult_exp_zeros:
  assumes "wf_tensor x" "shape x = s"
  shows "bop (*) x (tmap exp (zeros s)) = Inr x"
proof -
  have "tabulate s (\<lambda>idx. get x idx * get (tabulate s (\<lambda>_. 1)) idx) = tabulate s (get x)"
    by (rule tabulate_cong) (simp add: get_tabulate)
  then show ?thesis
    using assms bop_same[of x s "tabulate s (\<lambda>_. 1)" "(*)"] 
    by (simp add: tabulate_get' tmap_exp_zeros)
qed

lemma narrow1_c4:
  assumes "shape x = [b, c, h, w]"
  shows "narrow1 x start len
       = tabulate [b, len, h, w] (\<lambda>idx. get x [idx ! 0, idx ! 1 + start, idx ! 2, idx ! 3])"
proof -
  have "tabulate [b, len, h, w] (\<lambda>idx. get x (idx[1 := idx ! 1 + start]))
      = tabulate [b, len, h, w] (\<lambda>idx. get x [idx ! 0, idx ! 1 + start, idx ! 2, idx ! 3])"
    by (rule tabulate_cong) (auto simp: valid4)
  then show ?thesis using assms by (simp add: narrow1_def)
qed

lemma chunk2_even:
  assumes "shape x = [b, 2 * k, h, w]"
  shows "chunk2 x = Inr (narrow1 x 0 k, narrow1 x k k)"
proof -
  have "(2 * k + 1) div 2 = k" by simp
  moreover have "2 * k \<noteq> 1" by presburger
  ultimately show ?thesis using assms by (simp add: chunk2_def)
qed

lemma cat1_narrow:
  assumes "wf_tensor x" "shape x = [b, 2 * k, h, w]"
  shows "cat1 (narrow1 x 0 k) (narrow1 x k k) = Inr x"
proof -
  let ?a = "narrow1 x 0 k" and ?b = "narrow1 x k k"
  have a: "?a = tabulate [b, k, h, w] (\<lambda>idx. get x [idx ! 0, idx ! 1 + 0, idx ! 2, idx ! 3])"
    and b: "?b = tabulate [b, k, h, w] (\<lambda>idx. get x [idx ! 0, idx ! 1 + k, idx ! 2, idx ! 3])"
    by (rule narrow1_c4[OF assms(2)])+
  have "tabulate [b, k + k, h, w]
          (\<lambda>idx. if idx ! 1 < k then get ?a idx else get ?b (idx[1 := idx ! 1 - k]))
      = tabulate [b, k + k, h, w] (get x)"
  proof (rule tabulate_cong)
    fix idx assume "valid [b, k + k, h, w] idx"
    then obtain i0 i1 i2 i3 where i: "idx = [i0, i1, i2, i3]" "i0 < b" "i1 < k + k" "i2 < h" "i3 < w"
      unfolding valid4 by blast
    show "(if idx ! 1 < k then get ?a idx else get ?b (idx[1 := idx ! 1 - k])) = get x idx"
    proof (cases "i1 < k")
      case True
      then have "valid [b, k, h, w] idx" using i by (simp add: valid4)
      then show ?thesis using True i(1) unfolding a by (simp add: get_tabulate)
    next
      case False
      then have "valid [b, k, h, w] (idx[1 := idx ! 1 - k])" using i by (simp add: valid4)
      then show ?thesis using False i(1) unfolding b by (simp add: get_tabulate)
    qed
  qed
  also have "\<dots> = x" by (rule tabulate_get'[OF assms(1)]) (simp add: assms(2) mult_2)
  finally have e: "tabulate [b, k + k, h, w]
          (\<lambda>idx. if idx ! 1 < k then get ?a idx else get ?b (idx[1 := idx ! 1 - k])) = x" .
  have sa: "shape ?a = [b, k, h, w]" and sb: "shape ?b = [b, k, h, w]"
    by (simp_all add: narrow1_def assms(2))
  show ?thesis unfolding cat1_def sa sb
    by (simp only: prod.case list.case simp_thms if_True e)
qed

lemma conv2d_3x3:
  assumes "shape x = [n, c, h, wd]" "shape w = [co, c, 3, 3]" "0 < h" "0 < wd"
  shows "\<exists>z. conv2d x w None 1 = Inr z \<and> shape z = [n, co, h, wd] \<and> wf_tensor z"
  using assms by (simp add: conv2d_def wf_tabulate)

lemma sum_list_zero: "(\<And>a. a \<in> set xs \<Longrightarrow> f a = (0::real)) \<Longrightarrow> (\<Sum>a\<leftarrow>xs. f a) = 0"
  by (induction xs) auto

lemma conv2d_zeros:
  assumes "shape x = [n, c, h, wd]" "0 < h" "0 < wd"
  shows "conv2d x (zeros [co, c, 3, 3]) (Some (zeros [co])) 1 = Inr (zeros [n, co, h, wd])"
proof -
  have "tabulate [n, co, h, wd]
          (\<lambda>idx. get (zeros [co]) [idx ! 1]
             + (\<Sum>ci\<leftarrow>[0..<c]. \<Sum>u\<leftarrow>[0..<3]. \<Sum>v\<leftarrow>[0..<3].
                  get (zeros [co, c, 3, 3]) [idx ! 1, ci, u, v]
                    * padded x 1 (idx ! 0) ci (idx ! 2 + u) (idx ! 3 + v)))
        = zeros [n, co, h, wd]"
  proof (rule tabulate_zero)
    fix idx assume "valid [n, co, h, wd] idx"
    then obtain i0 i1 i2 i3 where i: "idx = [i0, i1, i2, i3]" "i1 < co" unfolding valid4 by blast
    have b: "get (zeros [co]) [idx ! 1] = 0"
      using i by (intro get_zeros) (simp add: valid_def)
    have w: "get (zeros [co, c, 3, 3]) [idx ! 1, ci, u, v] = 0" if "ci < c" "u < 3" "v < 3" for ci u v
      using i that by (intro get_zeros) (simp add: valid4)
    have p: "get (zeros [co, c, 3, 3]) [idx ! 1, ci, u, v]
                    * padded x 1 (idx ! 0) ci (idx ! 2 + u) (idx ! 3 + v) = 0"
      if "ci \<in> set [0..<c]" "u \<in> set [0..<3]" "v \<in> set [0..<3]" for ci u v
    proof -
      have "ci < c" "u < 3" "v < 3" using that by simp_all
      then show ?thesis by (simp only: w mult_zero_left)
    qed
    have "(\<Sum>ci\<leftarrow>[0..<c]. \<Sum>u\<leftarrow>[0..<3]. \<Sum>v\<leftarrow>[0..<3].
                  get (zeros [co, c, 3, 3]) [idx ! 1, ci, u, v]
                    * padded x 1 (idx ! 0) ci (idx ! 2 + u) (idx ! 3 + v)) = 0"
      by (rule sum_list_zero, rule sum_list_zero, rule sum_list_zero, rule p)
    then show "get (zeros [co]) [idx ! 1]
             + (\<Sum>ci\<leftarrow>[0..<c]. \<Sum>u\<leftarrow>[0..<3]. \<Sum>v\<leftarrow>[0..<3].
                  get (zeros [co, c, 3, 3]) [idx ! 1, ci, u, v]
                    * padded x 1 (idx ! 0) ci (idx ! 2 + u) (idx ! 3 + v)) = 0"
      using b by simp
  qed
  then show ?thesis using assms by (simp add: conv2d_def)
qed

lemma relu_shape [simp]: "shape (relu x) = shape x"
  by (simp add: relu_def)

lemma relu_wf [simp]: "wf_tensor (relu x) = wf_tensor x"
  by (simp add: relu_def)

lemma norm_forward_ok:
  assumes "wf_tensor x" "shape x = [b, c, h, w]" "0 < b" "0 < h" "0 < w" "norm_ok c n"
  shows "\<exists>n' y. ActNorm_forward n x None False = Inr (n', y, None)
               \<and> shape y = [b, c, h, w] \<and> wf_tensor y"
proof -
  have n: "shape (bias n) = [1, c, 1, 1]" "shape (logs n) = [1, c, 1, 1]"
    "is_initialized n = 0 \<and> training n
           \<longrightarrow> 0 < b \<and> 0 < h \<and> 0 < w \<and> 0 < scale n \<and> 0 < eps n"
    using assms(3-6) by (simp_all add: norm_ok_def)
  from ActNorm_forward_ok[OF assms(1,2) n, of None False] show ?thesis by auto
qed

lemma NN_forward_zero:
  assumes "wf_tensor x" "shape x = [b, cin, h, w]" "0 < b" "0 < h" "0 < w"
    and "norm_ok cin (in_norm self)" "norm_ok mid (mid_norm self)" "norm_ok mid (out_norm self)"
    and "shape (in_conv self) = [mid, cin, 3, 3]" "shape (mid_conv1 self) = [mid, mid, 3, 3]"
      "shape (mid_conv2 self) = [mid, mid, 1, 1]"
    and "out_conv_weight self = zeros [cout, mid, 3, 3]" "out_conv_bias self = zeros [cout]"
  shows "\<exists>self'. NN_forward self x = Inr (self', zeros [b, cout, h, w])"
proof -
  from norm_forward_ok[OF assms(1-5) assms(6)] obtain n1 y1 where
    a1: "ActNorm_forward (in_norm self) x None False = Inr (n1, y1, None)"
    and y1: "shape y1 = [b, cin, h, w]" by blast
  from conv2d_3x3[OF y1 assms(9) assms(4,5)] obtain z1 where
    c1: "conv2d y1 (in_conv self) None 1 = Inr z1" and z1: "shape z1 = [b, mid, h, w]" by blast
  have rz1: "shape (relu z1) = [b, mid, h, w]" using z1 by simp
  from conv2d_3x3[OF rz1 assms(10) assms(4,5)] obtain z2 where
    c2: "conv2d (relu z1) (mid_conv1 self) None 1 = Inr z2"
    and z2: "shape z2 = [b, mid, h, w]" "wf_tensor z2" by blast
  from norm_forward_ok[OF z2(2,1) assms(3-5) assms(7)] obtain n2 y2 where
    a2: "ActNorm_forward (mid_norm self) z2 None False = Inr (n2, y2, None)"
    and y2: "shape y2 = [b, mid, h, w]" by blast
  have ry2: "shape (relu y2) = [b, mid, h, w]" using y2 by simp
  from conv2d_1x1[OF ry2 assms(11) assms(4,5)] obtain z3 where
    c3: "conv2d (relu y2) (mid_conv2 self) None 0 = Inr z3"
    and z3: "shape z3 = [b, mid, h, w]" "wf_tensor z3" by blast
  from norm_forward_ok[OF z3(2,1) assms(3-5) assms(8)] obtain n3 y3 where
    a3: "ActNorm_forward (out_norm self) z3 None False = Inr (n3, y3, None)"
    and y3: "shape y3 = [b, mid, h, w]" by blast
  have ry3: "shape (relu y3) = [b, mid, h, w]" using y3 by simp
  have c4: "conv2d (relu y3) (out_conv_weight self) (Some (out_conv_bias self)) 1
          = Inr (zeros [b, cout, h, w])"
    unfolding assms(12,13) by (rule conv2d_zeros[OF ry3 assms(4,5)])
  have "NN_forward self x
      = Inr (self\<lparr>in_norm := n1, mid_norm := n2, out_norm := n3\<rparr>, zeros [b, cout, h, w])"
    unfolding NN_forward_def a1 bnd_def sum.case prod.case c1 c2 a2 c3 a3 c4 ..
  then show ?thesis by blast
qed

lemma dat_zeros: "dat (zeros s) = replicate (prod_list s) 0"
  by (simp add: zeros_def tabulate_def map_replicate_const)

lemma strided1_zeros:
  assumes "start \<le> 1"
  shows "strided1 (zeros [b, 2 * k, h, w]) start = Inr (zeros [b, k, h, w])"
proof -
  have d: "(2 * k + 1 - start) div 2 = k" using assms by (cases "start = 0") auto
  have "tabulate [b, k, h, w] (\<lambda>idx. get (zeros [b, 2 * k, h, w]) (idx[1 := 2 * (idx ! 1) + start]))
      = zeros [b, k, h, w]"
  proof (rule tabulate_zero)
    fix idx assume "valid [b, k, h, w] idx"
    then have "valid [b, 2 * k, h, w] (idx[1 := 2 * (idx ! 1) + start])"
      using assms by (auto simp: valid4)
    then show "get (zeros [b, 2 * k, h, w]) (idx[1 := 2 * (idx ! 1) + start]) = 0"
      by (rule get_zeros)
  qed
  then show ?thesis by (simp only: strided1_def shape_zeros list.case d)
qed

lemma bop_scale_zeros:
  assumes "shape p = [k, 1, 1]"
  shows "bop (*) p (zeros [b, k, h, w]) = Inr (zeros [b, k, h, w])"
proof -
  have bs: "broadcast_shapes [k, 1, 1] [b, k, h, w] = Some [b, k, h, w]"
    by (auto simp: broadcast_shapes_def)
  have "tabulate [b, k, h, w] (\<lambda>idx. get p (bidx [k, 1, 1] idx)
            * get (zeros [b, k, h, w]) (bidx [b, k, h, w] idx)) = zeros [b, k, h, w]"
    by (rule tabulate_zero) (simp add: bidx_same get_zeros)
  then show ?thesis by (simp only: bop_def assms shape_zeros bs option.case)
qed

lemma flatten_sum_zeros: "flatten_sum (zeros [b, k, h, w]) = Inr (zeros [b])"
proof -
  let ?m = "prod_list [k, h, w]"
  let ?f = "(zeros [b, k, h, w])\<lparr>shape := [b, ?m]\<rparr>"
  have v: "view (zeros [b, k, h, w]) [b, ?m] = Inr ?f" by (simp add: view_def)
  have g: "get ?f [i, j] = 0" if "i < b" "j < ?m" for i j
  proof -
    have "valid [b, ?m] [i, j]" using that by (simp add: valid_def)
    from ravel_less[OF this] show ?thesis by (simp add: get_def dat_zeros)
  qed
  have "tabulate [b] (\<lambda>idx. \<Sum>j\<leftarrow>[0..<?m]. get ?f [idx ! 0, j]) = zeros [b]"
  proof (rule tabulate_zero)
    fix idx assume "valid [b] idx"
    then have i: "idx ! 0 < b" by (auto simp: valid_def list_all2_Cons2)
    have "get ?f [idx ! 0, j] = 0" if "j \<in> set [0..<?m]" for j
    proof -
      have "j < ?m" using that by simp
      then show ?thesis by (rule g[OF i])
    qed
    then show "(\<Sum>j\<leftarrow>[0..<?m]. get ?f [idx ! 0, j]) = 0"
      by (rule sum_list_zero)
  qed
  then show ?thesis
    by (simp only: flatten_sum_def shape_zeros list.case v bnd_def sum.case)
qed

lemma Coupling_identity:
  assumes "wf_tensor x" "shape x = [b, 2 * k, h, w]" "0 < b" "0 < h" "0 < w"
    and "norm_ok k (in_norm (nn self))" "norm_ok mid (mid_norm (nn self))"
      "norm_ok mid (out_norm (nn self))"
    and "shape (in_conv (nn self)) = [mid, k, 3, 3]"
      "shape (mid_conv1 (nn self)) = [mid, mid, 3, 3]"
      "shape (mid_conv2 (nn self)) = [mid, mid, 1, 1]"
    and "out_conv_weight (nn self) = zeros [2 * k, mid, 3, 3]"
      "out_conv_bias (nn self) = zeros [2 * k]"
    and "shape (coupling_scale self) = [k, 1, 1]"
    and "ldj = None \<or> (\<exists>l. ldj = Some l \<and> wf_tensor l \<and> shape l = [b])"
  shows "\<exists>self'. Coupling_forward self x ldj False = Inr (self', x, ldj)"
proof -
  let ?xc = "narrow1 x 0 k" and ?xi = "narrow1 x k k"
  have ch: "chunk2 x = Inr (?xc, ?xi)" by (rule chunk2_even[OF assms(2)])
  have xi: "wf_tensor ?xi" "shape ?xi = [b, k, h, w]" and xc: "wf_tensor ?xc" "shape ?xc = [b, k, h, w]"
    by (simp_all add: narrow1_def wf_tabulate assms(2))
  from NN_forward_zero[OF xi assms(3-5) assms(6-13)] obtain nn' where
    nf: "NN_forward (nn self) ?xi = Inr (nn', zeros [b, 2 * k, h, w])" by blast
  have s0: "strided1 (zeros [b, 2 * k, h, w]) 0 = Inr (zeros [b, k, h, w])"
    and t0: "strided1 (zeros [b, 2 * k, h, w]) 1 = Inr (zeros [b, k, h, w])"
    by (rule strided1_zeros, simp)+
  have s: "bop (*) (coupling_scale self) (tmap tanh (zeros [b, k, h, w])) = Inr (zeros [b, k, h, w])"
    by (simp add: tmap_zeros bop_scale_zeros[OF assms(14)])
  have a: "bop (+) ?xc (zeros [b, k, h, w]) = Inr ?xc" by (rule bop_add_zeros[OF xc])
  have m: "bop (*) ?xc (tmap exp (zeros [b, k, h, w])) = Inr ?xc"
    by (rule bop_mult_exp_zeros[OF xc])
  have l: "(case ldj of None \<Rightarrow> Inr None
            | Some ldj \<Rightarrow> bnd (flatten_sum (zeros [b, k, h, w])) (\<lambda>d.
                bnd (bop (+) ldj d) (\<lambda>ldj. Inr (Some ldj))))
           = Inr ldj"
    using assms(15) by (auto simp: flatten_sum_zeros bnd_def bop_add_zeros)
  have c: "cat1 ?xc ?xi = Inr x" by (rule cat1_narrow[OF assms(1,2)])
  have "Coupling_forward self x ldj False = Inr (self\<lparr>nn := nn'\<rparr>, x, ldj)"
    unfolding Coupling_forward_def ch bnd_def[of "Inr _"] sum.case prod.case nf s0 t0 s
      if_False a m l c ..
  then show ?thesis by blast
qed

lemma norm_ok_init: "norm_ok c (ActNorm_init c 1)"
  by (simp add: norm_ok_def ActNorm_init_def)

lemma shape_ones [simp]: "shape (ones s) = s"
  by (simp add: ones_def)

lemma bop_bc1:
  assumes "shape x = [b, c, h, w]" "shape y = [b, 1, h, w]"
  shows "bop f x y = Inr (tabulate [b, c, h, w]
           (\<lambda>idx. f (get x idx) (get y [idx ! 0, 0, idx ! 2, idx ! 3])))"
proof -
  have bs: "broadcast_shapes [b, c, h, w] [b, 1, h, w] = Some [b, c, h, w]"
    by (simp add: broadcast_shapes_def)
  have "tabulate [b, c, h, w] (\<lambda>idx. f (get x (bidx [b, c, h, w] idx)) (get y (bidx [b, 1, h, w] idx)))
      = tabulate [b, c, h, w] (\<lambda>idx. f (get x idx) (get y [idx ! 0, 0, idx ! 2, idx ! 3]))"
  proof (rule tabulate_cong)
    fix idx assume v: "valid [b, c, h, w] idx"
    then obtain i0 i1 i2 i3 where i: "idx = [i0, i1, i2, i3]" "i0 < b" "i2 < h" "i3 < w"
      unfolding valid4 by blast
    have "bidx [b, 1, h, w] idx = [idx ! 0, 0, idx ! 2, idx ! 3]"
      using i by (auto simp: bidx_def)
    then show "f (get x (bidx [b, c, h, w] idx)) (get y (bidx [b, 1, h, w] idx))
             = f (get x idx) (get y [idx ! 0, 0, idx ! 2, idx ! 3])"
      by (simp only: bidx_same[OF v])
  qed
  then show ?thesis by (simp only: bop_def assms bs option.case)
qed

lemma bop_bc1_zeros:
  assumes "wf_tensor x" "shape x = [b, c, h, w]"
  shows "bop (+) x (zeros [b, 1, h, w]) = Inr x"
    and "bop (*) x (tmap exp (zeros [b, 1, h, w])) = Inr x"
proof -
  have z: "get (zeros [b, 1, h, w]) [idx ! 0, 0, idx ! 2, idx ! 3] = 0"
    and e: "get (tabulate [b, 1, h, w] (\<lambda>_. 1 :: real)) [idx ! 0, 0, idx ! 2, idx ! 3] = 1"
    if "valid [b, c, h, w] idx" for idx
  proof -
    from that have v: "valid [b, 1, h, w] [idx ! 0, 0, idx ! 2, idx ! 3]" by (auto simp: valid4)
    show "get (zeros [b, 1, h, w]) [idx ! 0, 0, idx ! 2, idx ! 3] = 0" by (rule get_zeros[OF v])
    show "get (tabulate [b, 1, h, w] (\<lambda>_. 1 :: real)) [idx ! 0, 0, idx ! 2, idx ! 3] = 1"
      by (rule get_tabulate[OF v])
  qed
  have "tabulate [b, c, h, w] (\<lambda>idx. get x idx + get (zeros [b, 1, h, w]) [idx ! 0, 0, idx ! 2, idx ! 3])
        = tabulate [b, c, h, w] (get x)"
    by (rule tabulate_cong) (simp only: z add_0_right)
  also have "\<dots> = x" by (rule tabulate_get'[OF assms])
  finally show "bop (+) x (zeros [b, 1, h, w]) = Inr x"
    by (simp only: bop_bc1[OF assms(2) shape_zeros])
  have "tabulate [b, c, h, w]
          (\<lambda>idx. get x idx * get (tabulate [b, 1, h, w] (\<lambda>_. 1)) [idx ! 0, 0, idx ! 2, idx ! 3])
        = tabulate [b, c, h, w] (get x)"
    by (rule tabulate_cong) (simp only: e mult_1_right)
  also have "\<dots> = x" by (rule tabulate_get'[OF assms])
  finally show "bop (*) x (tmap exp (zeros [b, 1, h, w])) = Inr x"
    unfolding tmap_exp_zeros by (simp only: bop_bc1[OF assms(2) shape_tabulate])
qed

lemma cat1_narrow_gen:
  assumes "wf_tensor x" "shape x = [b, c1 + c2, h, w]"
  shows "cat1 (narrow1 x 0 c1) (narrow1 x c1 c2) = Inr x"
proof -
  let ?a = "narrow1 x 0 c1" and ?b = "narrow1 x c1 c2"
  have a: "?a = tabulate [b, c1, h, w] (\<lambda>idx. get x [idx ! 0, idx ! 1 + 0, idx ! 2, idx ! 3])"
    and b: "?b = tabulate [b, c2, h, w] (\<lambda>idx. get x [idx ! 0, idx ! 1 + c1, idx ! 2, idx ! 3])"
    by (rule narrow1_c4[OF assms(2)])+
  have "tabulate [b, c1 + c2, h, w]
          (\<lambda>idx. if idx ! 1 < c1 then get ?a idx else get ?b (idx[1 := idx ! 1 - c1]))
      = tabulate [b, c1 + c2, h, w] (get x)"
  proof (rule tabulate_cong)
    fix idx assume "valid [b, c1 + c2, h, w] idx"
    then obtain i0 i1 i2 i3 where i: "idx = [i0, i1, i2, i3]" "i0 < b" "i1 < c1 + c2" "i2 < h" "i3 < w"
      unfolding valid4 by blast
    show "(if idx ! 1 < c1 then get ?a idx else get ?b (idx[1 := idx ! 1 - c1])) = get x idx"
    proof (cases "i1 < c1")
      case True
      then have "valid [b, c1, h, w] idx" using i by (simp add: valid4)
      then show ?thesis using True i(1) unfolding a by (simp add: get_tabulate)
    next
      case False
      then have "valid [b, c2, h, w] (idx[1 := idx ! 1 - c1])" using i by (auto simp: valid4)
      then show ?thesis using False i(1) unfolding b by (simp add: get_tabulate)
    qed
  qed
  also have "\<dots> = x" by (rule tabulate_get'[OF assms])
  finally have e: "tabulate [b, c1 + c2, h, w]
          (\<lambda>idx. if idx ! 1 < c1 then get ?a idx else get ?b (idx[1 := idx ! 1 - c1])) = x" .
  have sa: "shape ?a = [b, c1, h, w]" and sb: "shape ?b = [b, c2, h, w]"
    by (simp_all add: narrow1_def assms(2))
  show ?thesis unfolding cat1_def sa sb
    by (simp only: prod.case list.case simp_thms if_True e)
qed

lemma Coupling_three_channels:
  assumes "wf_tensor x" "shape x = [b, 3, h, w]" "0 < b" "0 < h" "0 < w"
    and "shape w1 = [mid, 1, 3, 3]" "shape w2 = [mid, mid, 3, 3]" "shape w3 = [mid, mid, 1, 1]"
  shows "chunk2 x = Inr (narrow1 x 0 2, narrow1 x 2 1)
       \<and> shape (narrow1 x 0 2) = [b, 2, h, w] \<and> shape (narrow1 x 2 1) = [b, 1, h, w]
       \<and> (\<exists>self'. Coupling_forward (Coupling_init 1 mid w1 w2 w3) x None False
                    = Inr (self', x, None))"
proof -
  let ?c = "Coupling_init 1 mid w1 w2 w3"
  let ?xc = "narrow1 x 0 2" and ?xi = "narrow1 x 2 1"
  have ch: "chunk2 x = Inr (?xc, ?xi)" using assms(2) by (simp add: chunk2_def)
  have xi: "wf_tensor ?xi" "shape ?xi = [b, 1, h, w]" and xc: "wf_tensor ?xc" "shape ?xc = [b, 2, h, w]"
    by (simp_all add: narrow1_def wf_tabulate assms(2))
  have n: "norm_ok 1 (in_norm (nn ?c))" "norm_ok mid (mid_norm (nn ?c))"
    "norm_ok mid (out_norm (nn ?c))"
    by (simp_all add: Coupling_init_def NN_init_def norm_ok_init)
  have c: "shape (in_conv (nn ?c)) = [mid, 1, 3, 3]"
    "shape (mid_conv1 (nn ?c)) = [mid, mid, 3, 3]"
    "shape (mid_conv2 (nn ?c)) = [mid, mid, 1, 1]"
    "out_conv_weight (nn ?c) = zeros [2 * 1, mid, 3, 3]"
    "out_conv_bias (nn ?c) = zeros [2 * 1]"
    using assms(6-8) by (simp_all add: Coupling_init_def NN_init_def)
  from NN_forward_zero[OF xi assms(3-5) n c] obtain nn' where
    nf: "NN_forward (nn ?c) ?xi = Inr (nn', zeros [b, 2 * 1, h, w])" by blast
  have s0: "strided1 (zeros [b, 2 * 1, h, w]) 0 = Inr (zeros [b, 1, h, w])"
    and t0: "strided1 (zeros [b, 2 * 1, h, w]) 1 = Inr (zeros [b, 1, h, w])"
    by (rule strided1_zeros, simp)+
  have s: "bop (*) (coupling_scale ?c) (tmap tanh (zeros [b, 1, h, w])) = Inr (zeros [b, 1, h, w])"
    by (simp add: tmap_zeros bop_scale_zeros Coupling_init_def)
  have a: "bop (+) ?xc (zeros [b, 1, h, w]) = Inr ?xc"
    and m: "bop (*) ?xc (tmap exp (zeros [b, 1, h, w])) = Inr ?xc"
    by (rule bop_bc1_zeros[OF xc])+
  have ct: "cat1 ?xc ?xi = Inr x" by (rule cat1_narrow_gen[OF assms(1)]) (simp add: assms(2))
  have "Coupling_forward ?c x None False = Inr (?c\<lparr>nn := nn'\<rparr>, x, None)"
    unfolding Coupling_forward_def ch bnd_def[of "Inr _"] sum.case prod.case nf s0 t0 s
      if_False a m option.case ct ..
  then show ?thesis using ch xi xc by blast
qed

section \<open>The shape of what squeeze returns\<close>

lemma view_shape_sound: "map_sum id shape (view x s) = view_shape (shape x) s"
  by (simp add: view_def view_shape_def)

lemma permute_shape_sound: "map_sum id shape (permute x dims) = permute_shape (shape x) dims"
  by (simp add: permute_def permute_shape_def)

lemma bnd_shape_sound:
  assumes "map_sum id shape m = ms" "\<And>v. map_sum id shape (f v) = g (shape v)"
  shows "map_sum id shape (bnd m f) = bnd ms g"
  using assms by (cases m) (auto simp: bnd_def)

lemma squeeze_shape_sound: "map_sum id shape (squeeze x reverse) = squeeze_shape (shape x) reverse"
proof -
  have "map_sum id shape
          (bnd (view x s1) (\<lambda>x. bnd (permute x p) (\<lambda>x. view x s2)))
        = bnd (view_shape (shape x) s1) (\<lambda>x. bnd (permute_shape x p) (\<lambda>x. view_shape x s2))"
    for s1 p s2
    by (intro bnd_shape_sound view_shape_sound permute_shape_sound)
  then show ?thesis
    unfolding squeeze_def squeeze_shape_def
    by (auto split: list.splits)
qed

section \<open>LogitTransform\<close>

lemma tmap_idI: "(\<And>a. a \<in> set (dat t) \<Longrightarrow> f a = a) \<Longrightarrow> tmap f t = t"
  by (simp add: tmap_def map_idI)

lemma tmap_cong: "(\<And>a. a \<in> set (dat t) \<Longrightarrow> f a = g a) \<Longrightarrow> tmap f t = tmap g t"
  by (simp add: tmap_def)

lemma bop_tmap_same:
  assumes "wf_tensor t"
  shows "bop f (tmap g t) (tmap h t) = Inr (tmap (\<lambda>a. f (g a) (h a)) t)"
proof -
  have "tabulate (shape t) (\<lambda>idx. f (get (tmap g t) idx) (get (tmap h t) idx))
      = tmap (\<lambda>a. f (g a) (h a)) t"
    by (rule tensor_eqI) (simp_all add: wf_tabulate assms get_tabulate get_tmap)
  then show ?thesis using bop_same[of "tmap g t" "shape t" "tmap h t" f] by simp
qed

lemma alpha_bounds: "0 < alpha" "alpha < 1 / 2" "0 < 1 - 2 * alpha"
  by (simp_all add: alpha_def)

lemma logit_arg:
  assumes "0 < a" "a < 1"
  shows "0 < alpha + (1 - 2 * alpha) * a" "alpha + (1 - 2 * alpha) * a < 1"
proof -
  have "0 < (1 - 2 * alpha) * a" using assms alpha_bounds by simp
  then show "0 < alpha + (1 - 2 * alpha) * a" using alpha_bounds(1) by linarith
  have "(1 - 2 * alpha) * a < (1 - 2 * alpha) * 1"
    using assms alpha_bounds by (intro mult_strict_left_mono) simp_all
  then have "(1 - 2 * alpha) * a < 1 - 2 * alpha" by simp
  then show "alpha + (1 - 2 * alpha) * a < 1" using alpha_bounds(1) by linarith
qed

lemma sigmoid_logit:
  assumes "0 < s" "s < 1"
  shows "1 / (1 + exp (- (ln s - ln (1 - s)))) = (s::real)"
proof -
  have "exp (- (ln s - ln (1 - s))) = exp (ln (1 - s)) / exp (ln s)"
    by (simp add: exp_diff)
  also have "\<dots> = (1 - s) / s" using assms by simp
  finally have "1 + exp (- (ln s - ln (1 - s))) = 1 / s" using assms by (simp add: field_simps)
  then show ?thesis using assms by simp
qed

lemma logit_inverse_elem:
  assumes "0 < a" "a < 1"
  shows "(1 / (1 + exp (- (ln (alpha + (1 - 2 * alpha) * a)
                           - ln (1 - (alpha + (1 - 2 * alpha) * a))))) - alpha) / (1 - 2 * alpha)
         = a"
proof -
  have "(alpha + (1 - 2 * alpha) * a - alpha) / (1 - 2 * alpha) = a"
    using alpha_bounds(3) by simp
  then show ?thesis by (simp only: sigmoid_logit[OF logit_arg[OF assms]])
qed

lemma logdetgrad_ok:
  assumes "\<forall>a \<in> set (dat x). 0 < a \<and> a < 1"
  shows "logdetgrad x
       = Inr (tmap (\<lambda>a. - ln ((alpha + (1 - 2 * alpha) * a)
                              - (alpha + (1 - 2 * alpha) * a) * (alpha + (1 - 2 * alpha) * a))
                        + ln (1 - 2 * alpha)) x)"
proof -
  have "0 < s - s * s" if "0 < s" "s < 1" for s :: real
  proof -
    have "s - s * s = s * (1 - s)" by (simp add: algebra_simps)
    then show ?thesis using that by simp
  qed
  then have "\<forall>a \<in> set (dat x). 0 < (alpha + (1 - 2 * alpha) * a)
                              - (alpha + (1 - 2 * alpha) * a) * (alpha + (1 - 2 * alpha) * a)"
    using assms logit_arg by blast
  then show ?thesis
    unfolding logdetgrad_def Let_def
    by (subst log_t_ok) (simp_all add: bnd_def tmap_tmap)
qed

lemma batch_sum_ok:
  assumes "shape t = b # rest" "0 < b"
  shows "\<exists>d. batch_sum t = Inr d \<and> shape d = [b, 1] \<and> wf_tensor d"
  using assms by (simp add: batch_sum_def view_def bnd_def wf_tabulate)

lemma broadcast_b_b1: "broadcast_shapes [b] [b, Suc 0] = Some [b, b]"
  by (simp add: broadcast_shapes_def)

lemma bop_b_b1:
  assumes "shape l = [b]" "shape d = [b, 1]"
  shows "\<exists>r. bop f l d = Inr r \<and> shape r = [b, b] \<and> wf_tensor r
           \<and> (\<forall>i < b. \<forall>j < b. get r [i, j] = f (get l [j]) (get d [i, 0]))"
proof -
  let ?r = "tabulate [b, b] (\<lambda>idx. f (get l (bidx [b] idx)) (get d (bidx [b, 1] idx)))"
  have r: "bop f l d = Inr ?r" using assms by (simp add: bop_def broadcast_b_b1)
  have "get ?r [i, j] = f (get l [j]) (get d [i, 0])" if "i < b" "j < b" for i j
  proof -
    have v: "valid [b, b] [i, j]" using that by (simp add: valid_def)
    have "bidx [b] [i, j] = [j]" "bidx [b, 1] [i, j] = [i, 0]"
      using that by (auto simp: bidx_def)
    then show ?thesis by (simp add: get_tabulate[OF v])
  qed
  then show ?thesis using r by (simp add: wf_tabulate)
qed

lemma LogitTransform_roundtrip:
  assumes "wf_tensor x" "shape x = b # rest" "0 < b" "\<forall>a \<in> set (dat x). 0 < a \<and> a < 1"
    and "shape l = [b]"
  shows "\<exists>y d l1 l2.
           LogitTransform_forward x (Some l) False = Inr (y, Some l1)
         \<and> LogitTransform_forward y (Some l1) True = Inr (x, Some l2)
         \<and> bnd (logdetgrad x) batch_sum = Inr d
         \<and> shape l1 = [b] \<and> shape l2 = [b, b]
         \<and> (\<forall>i < b. \<forall>j < b. get l2 [i, j] = get l [j] + get d [j, 0] - get d [i, 0])"
proof -
  let ?S = "\<lambda>a. alpha + (1 - 2 * alpha) * a"
  let ?y = "tmap (\<lambda>a. ln (?S a) - ln (1 - ?S a)) x"
  let ?G = "tmap (\<lambda>a. - ln (?S a - ?S a * ?S a) + ln (1 - 2 * alpha)) x"
  have e: "0 < ?S a" "?S a < 1" if "a \<in> set (dat x)" for a
    using assms(4) that logit_arg by blast+
  have l1: "log_t (tmap ?S x) = Inr (tmap (\<lambda>a. ln (?S a)) x)"
    by (subst log_t_ok) (use e in \<open>auto simp: tmap_tmap\<close>)
  have l2: "log_t (tmap (\<lambda>a. 1 - a) (tmap ?S x)) = Inr (tmap (\<lambda>a. ln (1 - ?S a)) x)"
    by (subst log_t_ok) (use e in \<open>auto simp: tmap_tmap\<close>)
  have y: "bop (-) (tmap (\<lambda>a. ln (?S a)) x) (tmap (\<lambda>a. ln (1 - ?S a)) x) = Inr ?y"
    by (rule bop_tmap_same[OF assms(1)])
  have g: "logdetgrad x = Inr ?G" by (rule logdetgrad_ok[OF assms(4)])
  from batch_sum_ok[of ?G b rest] assms(2,3) obtain d where
    d: "batch_sum ?G = Inr d" "shape d = [b, 1]" "wf_tensor d" by auto
  have v: "view d [prod_list (shape d)] = Inr (d\<lparr>shape := [b]\<rparr>)"
    by (simp add: view_def d(2))
  let ?l1 = "tabulate [b] (\<lambda>idx. get l idx + get (d\<lparr>shape := [b]\<rparr>) idx)"
  have a: "bop (+) l (d\<lparr>shape := [b]\<rparr>) = Inr ?l1"
    by (rule bop_same) (simp_all add: assms(5))
  have f: "LogitTransform_forward x (Some l) False = Inr (?y, Some ?l1)"
    unfolding LogitTransform_forward_def Let_def if_False l1 l2 bnd_def[of "Inr _"] sum.case y
      option.case g d(1) v a ..
  have x': "tmap (\<lambda>a. (1 / (1 + exp (- a)) - alpha) / (1 - 2 * alpha)) ?y = x"
    unfolding tmap_tmap by (rule tmap_idI) (use assms(4) logit_inverse_elem in blast)
  from bop_b_b1[of ?l1 b d "(-)"] d(2) obtain r where
    r: "bop (-) ?l1 d = Inr r" "shape r = [b, b]"
       "\<forall>i < b. \<forall>j < b. get r [i, j] = get ?l1 [j] - get d [i, 0]"
    by auto
  have i: "LogitTransform_forward ?y (Some ?l1) True = Inr (x, Some r)"
    unfolding LogitTransform_forward_def if_True LogitTransform_inverse_def Let_def x'
      option.case g bnd_def[of "Inr _"] sum.case d(1) r(1) ..
  have "get r [i, j] = get l [j] + get d [j, 0] - get d [i, 0]" if "i < b" "j < b" for i j
  proof -
    have vj: "valid [b] [j]" using that by (simp add: valid_def)
    have "get (d\<lparr>shape := [b]\<rparr>) [j] = get d [j, 0]"
      by (simp add: get_def d(2) ravel.simps)
    then have "get ?l1 [j] = get l [j] + get d [j, 0]" by (simp add: get_tabulate[OF vj])
    then show ?thesis using r(3) that by simp
  qed
  moreover have "bnd (logdetgrad x) batch_sum = Inr d"
    unfolding g bnd_def sum.case by (rule d(1))
  ultimately show ?thesis using f i r(2) by (intro exI[of _ ?y] exI[of _ d] exI[of _ ?l1] exI[of _ r]) simp
qed

section \<open>The functions on shapes follow the functions on tensors\<close>

lemma agrees_bnd:
  assumes "agrees a m ms" "\<And>v. m = Inr v \<Longrightarrow> agrees b (f v) (g (a v))"
  shows "agrees b (bnd m f) (bnd ms g)"
  using assms by (cases m) (auto simp: agrees_def bnd_def)

lemma agrees_bnd_same:
  assumes "m = Inl NonFinite \<or> (\<exists>v. m = Inr v \<and> P v)" "\<And>v. P v \<Longrightarrow> agrees b (f v) rs"
  shows "agrees b (bnd m f) rs"
  using assms by (fastforce simp: agrees_def bnd_def)

lemma agrees_eq: "map_sum id a r = rs \<Longrightarrow> agrees a r rs"
  by (simp add: agrees_def)

lemma agrees_Inr: "a v = s \<Longrightarrow> agrees a (Inr v) (Inr s)"
  by (simp add: agrees_def)

lemma agrees_Inl: "agrees a (Inl e) (Inl e)"
  by (simp add: agrees_def)

lemma bop_sound: "agrees shape (bop f x y) (bcast (shape x) (shape y))"
  by (simp add: agrees_def bop_def bcast_def split: option.splits)

lemma copy_into_sound:
  "agrees (\<lambda>_. ()) (copy_into dst src) (copy_shape (shape dst) (shape src))"
  by (simp add: agrees_def copy_into_def copy_shape_def)

lemma copy_into_shape: "copy_into dst src = Inr r \<Longrightarrow> shape r = shape dst"
  by (auto simp: copy_into_def split: if_splits)

lemma view_sound: "agrees shape (view x s) (view_shape (shape x) s)"
  by (simp add: agrees_def view_def view_shape_def)

lemma squeeze_sound: "agrees shape (squeeze x r) (squeeze_shape (shape x) r)"
  by (simp add: agrees_def squeeze_shape_sound)

lemma mean_sound: "agrees shape (mean t d) (mean_shape (shape t) d)"
  by (simp add: agrees_def mean_def mean_shape_def)

lemma means_sound: "agrees shape (means t ds) (means_shape (shape t) ds)"
proof (induction ds arbitrary: t)
  case Nil
  then show ?case by (simp add: agrees_def)
next
  case (Cons d ds)
  show ?case unfolding means.simps means_shape.simps
    by (rule agrees_bnd[OF mean_sound]) (rule Cons.IH)
qed

lemma squeeze_dim_sound: "agrees shape (squeeze_dim t k) (squeeze_dim_shape (shape t) k)"
  by (simp add: agrees_def squeeze_dim_def squeeze_dim_shape_def Let_def)

lemma squeezes_sound: "agrees shape (squeezes t ds i) (squeezes_shape (shape t) ds i)"
proof (induction ds arbitrary: t i)
  case Nil
  then show ?case by (simp add: agrees_def)
next
  case (Cons d ds)
  show ?case unfolding squeezes.simps squeezes_shape.simps
    by (rule agrees_bnd[OF squeeze_dim_sound]) (rule Cons.IH)
qed

lemma mean_dim_sound: "agrees shape (mean_dim t ds k) (mean_dim_shape (shape t) ds k)"
  unfolding mean_dim_def mean_dim_shape_def
  by (rule agrees_bnd[OF means_sound]) (auto simp: agrees_Inr squeezes_sound)

lemma bop_sound': "shape x = sx \<Longrightarrow> shape y = sy \<Longrightarrow> agrees shape (bop f x y) (bcast sx sy)"
  using bop_sound by blast

lemma mean_dim_sound': "shape t = s \<Longrightarrow> agrees shape (mean_dim t ds k) (mean_dim_shape s ds k)"
  using mean_dim_sound by blast

lemma sqrt_t_same: "sqrt_t v = Inl NonFinite \<or> (\<exists>r. sqrt_t v = Inr r \<and> shape r = shape v)"
  by (simp add: sqrt_t_def)

lemma rdiv_t_same: "rdiv_t c v = Inl NonFinite \<or> (\<exists>r. rdiv_t c v = Inr r \<and> shape r = shape v)"
  by (simp add: rdiv_t_def)

lemma log_t_same: "log_t v = Inl NonFinite \<or> (\<exists>r. log_t v = Inr r \<and> shape r = shape v)"
  by (simp add: log_t_def)

lemma agrees_unit_bnd:
  assumes "agrees (\<lambda>_. ()) m ms"
  shows "agrees (\<lambda>_. ()) (bnd m (\<lambda>v. Inr (F v))) ms"
  using assms by (cases m) (auto simp: agrees_def bnd_def)

lemma initialize_parameters_sound:
  assumes "shape (bias n) = [1, C, 1, 1]" "shape (logs n) = [1, C, 1, 1]" "training n"
  shows "agrees (\<lambda>_. ()) (initialize_parameters n x) (initialize_parameters_shape C (shape x))"
  unfolding initialize_parameters_def initialize_parameters_shape_def Let_def
  apply (simp only: assms(3) not_True_eq_False if_False)
  apply (rule agrees_bnd[OF mean_dim_sound])
  apply (rule agrees_bnd[OF bop_sound'[OF refl shape_tmap]])
  apply (rule agrees_bnd[OF mean_dim_sound'[OF shape_tmap]])
  apply (rule agrees_bnd_same[OF sqrt_t_same])
  apply (rule agrees_bnd_same[OF rdiv_t_same])
  apply (rule agrees_bnd_same[OF log_t_same])
  apply (simp only: shape_tmap)
  apply (rule agrees_bnd[where a = "\<lambda>_. ()"])
   apply (metis assms(1) copy_into_sound shape_tmap)
  apply (rule agrees_unit_bnd)
  apply (metis assms(2) copy_into_sound)
  done

lemma initialize_parameters_shapes:
  assumes "initialize_parameters n x = Inr n'"
  shows "shape (bias n') = shape (bias n) \<and> shape (logs n') = shape (logs n)"
  using assms unfolding initialize_parameters_def Let_def
  by (auto simp: bnd_def copy_into_shape split: if_splits sum.splits)

lemma center_sound:
  assumes "shape (bias n) = [1, C, 1, 1]"
  shows "agrees shape (center n x r) (center_shape C (shape x))"
  unfolding center_def center_shape_def
  by (cases r) (simp_all only: if_True if_False bop_sound'[OF refl assms])

lemma agrees_out3:
  assumes "agrees out2 m ms"
  shows "agrees out3 (bnd m (\<lambda>(x, ldj). Inr (n, x, ldj))) ms"
  using assms by (cases m) (auto simp: agrees_def bnd_def out3_def)

lemma sldj_scalar_sound:
  assumes "shape k = []"
  shows "agrees out2 (bnd (if r then bop (-) s k else bop (+) s k) (\<lambda>sldj. Inr (v, Some sldj)))
           (bnd (bcast (shape s) []) (\<lambda>l. Inr (shape v, Some l)))"
proof -
  have b: "agrees shape (if r then bop (-) s k else bop (+) s k) (bcast (shape s) [])"
    by (cases r) (simp_all only: if_True if_False bop_sound'[OF refl assms])
  show ?thesis
    by (rule agrees_bnd[OF b]) (simp add: agrees_def out2_def)
qed

lemma scale_fn_sound:
  assumes "shape (logs n) = [1, C, 1, 1]"
  shows "agrees out2 (scale_fn n x l r) (scale_shape C (shape x) (map_option shape l))"
proof -
  have sh: "shape (tmap exp (tmap (\<lambda>a. a * (- 1)) (logs n))) = [1, C, 1, 1]"
    "shape (tmap exp (logs n)) = [1, C, 1, 1]"
    by (simp_all only: shape_tmap assms)
  have m: "agrees shape (if r then bop (*) x (tmap exp (tmap (\<lambda>a. a * (- 1)) (logs n)))
                         else bop (*) x (tmap exp (logs n))) (bcast (shape x) [1, C, 1, 1])"
    by (cases r) (simp_all only: if_True if_False bop_sound'[OF refl sh(1)] bop_sound'[OF refl sh(2)])
  show ?thesis
    unfolding scale_fn_def scale_shape_def
  proof (rule agrees_bnd[OF m])
    fix v
    show "agrees out2
          (case l of None \<Rightarrow> Inr (v, None)
           | Some sldj \<Rightarrow>
               if length (shape v) < 4 then Inl IndexError
               else let ldj = scalar (sum_list (dat (logs n)) * real (shape v ! 2) * real (shape v ! 3))
                    in bnd (if r then bop (-) sldj ldj else bop (+) sldj ldj)
                        (\<lambda>sldj. Inr (v, Some sldj)))
          (case map_option shape l of None \<Rightarrow> Inr (shape v, None)
           | Some l \<Rightarrow> if length (shape v) < 4 then Inl IndexError
                       else bnd (bcast l []) (\<lambda>l. Inr (shape v, Some l)))"
    proof (cases l)
      case None
      then show ?thesis by (simp add: agrees_def out2_def)
    next
      case (Some s)
      have k: "shape (scalar a) = []" for a :: real by (simp add: scalar_def)
      show ?thesis
      proof (cases "length (shape v) < 4")
        case True
        then show ?thesis unfolding Some by (simp add: agrees_def)
      next
        case False
        then show ?thesis
          unfolding Some option.case option.map Let_def
          by (simp only: if_False) (rule sldj_scalar_sound[OF k])
      qed
    qed
  qed
qed

lemma ActNorm_forward_sound:
  assumes "norm_shaped C ini n"
  shows "agrees out3 (ActNorm_forward n x ldj r)
           (ActNorm_forward_shape C ini (shape x) (map_option shape ldj) r)"
proof -
  have s: "shape (bias n) = [1, C, 1, 1]" "shape (logs n) = [1, C, 1, 1]"
    "ini \<longleftrightarrow> is_initialized n = 0 \<and> training n"
    using assms by (simp_all add: norm_shaped_def)
  have i: "agrees (\<lambda>_. ()) (if is_initialized n = 0 then initialize_parameters n x else Inr n)
             (if ini then initialize_parameters_shape C (shape x) else Inr ())"
  proof (cases ini)
    case True
    then show ?thesis using initialize_parameters_sound[OF s(1,2)] s(3) by simp
  next
    case False
    then have "(if is_initialized n = 0 then initialize_parameters n x else Inr n) = Inr n"
      using s(3) by (auto simp: initialize_parameters_def)
    then show ?thesis using False by (simp add: agrees_def)
  qed
  show ?thesis
    unfolding ActNorm_forward_def ActNorm_forward_shape_def
  proof (rule agrees_bnd[OF i])
    fix n' assume "(if is_initialized n = 0 then initialize_parameters n x else Inr n) = Inr n'"
    then have s': "shape (bias n') = [1, C, 1, 1]" "shape (logs n') = [1, C, 1, 1]"
      using s(1,2) initialize_parameters_shapes[of n x n'] by (auto split: if_splits)
    show "agrees out3
          (if r then bnd (scale_fn n' x ldj r) (\<lambda>(x, ldj). bnd (center n' x r) (\<lambda>x. Inr (n', x, ldj)))
           else bnd (center n' x r) (\<lambda>x. bnd (scale_fn n' x ldj r) (\<lambda>(x, ldj). Inr (n', x, ldj))))
          (if r then bnd (scale_shape C (shape x) (map_option shape ldj))
                      (\<lambda>(x, ldj). bnd (center_shape C x) (\<lambda>x. Inr (x, ldj)))
           else bnd (center_shape C (shape x)) (\<lambda>x. scale_shape C x (map_option shape ldj)))"
    proof (cases r)
      case True
      have c: "agrees out3 (case v of (x, ldj) \<Rightarrow> bnd (center n' x True) (\<lambda>x. Inr (n', x, ldj)))
                 (case out2 v of (x, ldj) \<Rightarrow> bnd (center_shape C x) (\<lambda>x. Inr (x, ldj)))" for v
      proof (cases v)
        case (Pair y l)
        show ?thesis unfolding Pair out2_def map_prod_simp prod.case
          by (rule agrees_bnd[OF center_sound[OF s'(1)]]) (simp add: agrees_def out3_def out2_def)
      qed
      from True have r: "r = True" by simp
      show ?thesis unfolding r if_True
        by (rule agrees_bnd[OF scale_fn_sound[OF s'(2)]]) (rule c)
    next
      case False
      then have r: "r = False" by simp
      show ?thesis unfolding r if_False
        by (rule agrees_bnd[OF center_sound[OF s'(1)]], rule agrees_out3,
            rule scale_fn_sound[OF s'(2)])
    qed
  qed
qed

lemma conv2d_sound:
  assumes "shape w = [cout, cin, k, k]" "b = None \<or> (\<exists>bt. b = Some bt \<and> shape bt = [cout])"
  shows "agrees shape (conv2d x w b pad) (conv_shape cin cout k pad (shape x))"
  using assms
  by (auto simp: agrees_def conv2d_def conv_shape_def shape_tabulate not_less
           split: list.splits option.splits)

lemma conv2d_sound':
  assumes "shape w = [cout, cin, k, k]" "b = None \<or> (\<exists>bt. b = Some bt \<and> shape bt = [cout])"
    "shape x = s"
  shows "agrees shape (conv2d x w b pad) (conv_shape cin cout k pad s)"
  using conv2d_sound[OF assms(1,2)] assms(3) by blast

lemma InvConv_sldj_sound:
  assumes "slogdet (weight cv) = Inr d"
  shows "agrees (map_option shape)
     (case sldj of
            None \<Rightarrow> Inr None
          | Some sldj \<Rightarrow>
              bnd (slogdet (weight cv)) (\<lambda>d.
              if length (shape x) < 4 then Inl IndexError
              else
                let ldj = scalar (d * real (shape x ! 2) * real (shape x ! 3))
                in bnd (if r then bop (-) sldj ldj else bop (+) sldj ldj) (\<lambda>sldj.
                   Inr (Some sldj))))
     (case map_option shape sldj of
            None \<Rightarrow> Inr None
          | Some l \<Rightarrow> if length (shape x) < 4 then Inl IndexError
                      else bnd (bcast l []) (\<lambda>l. Inr (Some l)))"
proof (cases sldj)
  case None
  then show ?thesis by (simp add: agrees_def)
next
  case (Some s)
  have k: "shape (scalar a) = []" for a :: real by (simp add: scalar_def)
  have b: "agrees shape (if r then bop (-) s (scalar a) else bop (+) s (scalar a))
             (bcast (shape s) [])" for a
    by (cases r) (simp_all only: if_True if_False bop_sound'[OF refl k])
  show ?thesis
  proof (cases "length (shape x) < 4")
    case True
    then show ?thesis unfolding Some by (simp add: agrees_def assms bnd_def)
  next
    case False
    have e: "bnd (slogdet (weight cv)) f = f d" for f :: "real \<Rightarrow> error + real tensor option"
      by (simp add: assms bnd_def)
    show ?thesis
      unfolding Some option.case option.map Let_def e using False
      by (simp only: if_False) (rule agrees_bnd[OF b], simp add: agrees_def)
  qed
qed

lemma InvConv_forward_sound:
  assumes "conv_shaped C invt slogdet inv_fn cv"
  shows "agrees out2 (InvConv_forward slogdet inv_fn cv x sldj r)
           (InvConv_forward_shape C invt (shape x) (map_option shape sldj) r)"
proof -
  from assms obtain d where d: "slogdet (weight cv) = Inr d"
    and nc: "num_channels cv = C" and pw: "prod_list (shape (weight cv)) = C * C"
    and iv: "if invt then \<exists>wi. inv_fn (weight cv) = Inr wi \<and> prod_list (shape wi) = C * C
             else inv_fn (weight cv) = Inl RuntimeError"
    by (auto simp: conv_shaped_def)
  have w: "agrees (\<lambda>w. ()) (bnd (if r then inv_fn (weight cv) else Inr (weight cv))
                (\<lambda>w. if prod_list (shape w) = C * C then Inr w else Inl RuntimeError))
             (if r \<and> \<not> invt then Inl RuntimeError else Inr ())"
    using iv pw by (cases r; cases invt) (auto simp: agrees_def bnd_def)
  have inner: "agrees out2
       (bnd (if r then inv_fn (weight cv) else Inr (weight cv)) (\<lambda>weight.
        bnd (view weight [C, C, 1, 1]) (\<lambda>weight.
        bnd (conv2d x weight None 0) (\<lambda>z. Inr (z, l)))))
       (bnd (if r \<and> \<not> invt then Inl RuntimeError else Inr ()) (\<lambda>_.
        bnd (conv_shape C C 1 0 (shape x)) (\<lambda>z. Inr (z, map_option shape l))))" for l
  proof -
    have c: "agrees out2 (bnd (conv2d x wt None 0) (\<lambda>z. Inr (z, l)))
               (bnd (conv_shape C C 1 0 (shape x)) (\<lambda>z. Inr (z, map_option shape l)))"
      if "shape wt = [C, C, 1, 1]" for wt
      by (rule agrees_bnd[OF conv2d_sound[OF that]]) (simp_all add: agrees_def out2_def)
    have v: "agrees out2 (bnd (view wt [C, C, 1, 1]) (\<lambda>weight.
               bnd (conv2d x weight None 0) (\<lambda>z. Inr (z, l))))
             (bnd (conv_shape C C 1 0 (shape x)) (\<lambda>z. Inr (z, map_option shape l)))"
      if "prod_list (shape wt) = C * C" for wt
    proof -
      have "view wt [C, C, 1, 1] = Inr (wt\<lparr>shape := [C, C, 1, 1]\<rparr>)"
        using that by (simp add: view_def)
      then show ?thesis using c[of "wt\<lparr>shape := [C, C, 1, 1]\<rparr>"] by (simp add: bnd_def)
    qed
    show ?thesis
    proof (cases r)
      case False
      then show ?thesis using v[OF pw] by (simp add: bnd_def)
    next
      case True
      show ?thesis
      proof (cases invt)
        case True
        with iv obtain wi where "inv_fn (weight cv) = Inr wi" "prod_list (shape wi) = C * C"
          by auto
        then show ?thesis using v[of wi] \<open>r\<close> True by (simp add: bnd_def)
      next
        case False
        with iv have "inv_fn (weight cv) = Inl RuntimeError" by simp
        then show ?thesis using \<open>r\<close> False by (simp add: bnd_def agrees_def)
      qed
    qed
  qed
  show ?thesis
    unfolding InvConv_forward_def InvConv_forward_shape_def nc
    by (rule agrees_bnd[OF InvConv_sldj_sound[of slogdet cv d, OF d]]) (rule inner)
qed

lemma norm_sound:
  assumes "norm_shaped C ini n"
  shows "agrees (shape \<circ> fst \<circ> snd) (ActNorm_forward n x None False) (norm_shape C ini (shape x))"
proof -
  have "agrees out3 (ActNorm_forward n x None False)
          (ActNorm_forward_shape C ini (shape x) None False)"
    using ActNorm_forward_sound[OF assms, of x None False] by simp
  then show ?thesis
    by (cases "ActNorm_forward n x None False")
       (auto simp: agrees_def norm_shape_def bnd_def out3_def out2_def
             split: sum.splits prod.splits)
qed

lemma chunk2_sound: "agrees (map_prod shape shape) (chunk2 x) (chunk2_shape (shape x))"
  by (auto simp: agrees_def chunk2_def chunk2_shape_def narrow1_def shape_tabulate
           split: list.splits)

lemma strided1_sound: "agrees shape (strided1 st k) (strided1_shape (shape st) k)"
  by (auto simp: agrees_def strided1_def strided1_shape_def shape_tabulate split: list.splits)

lemma flatten_sum_sound: "agrees shape (flatten_sum s) (flatten_sum_shape (shape s))"
  by (auto simp: agrees_def flatten_sum_def flatten_sum_shape_def shape_tabulate view_def bnd_def
           split: list.splits)

lemma cat1_sound: "agrees shape (cat1 a b) (cat1_shape (shape a) (shape b))"
  by (auto simp: agrees_def cat1_def cat1_shape_def shape_tabulate split: list.splits)

lemma agrees_ret:
  assumes "agrees a m ms" "\<And>v. b (h v) = a v"
  shows "agrees b (bnd m (\<lambda>v. Inr (h v))) ms"
  using assms by (cases m) (auto simp: agrees_def bnd_def)

lemma NN_forward_sound:
  assumes "nn_shaped cin mid cout ini n"
  shows "agrees (shape \<circ> snd) (NN_forward n x) (NN_forward_shape cin mid cout ini (shape x))"
proof -
  have n: "norm_shaped cin ini (in_norm n)" "norm_shaped mid ini (mid_norm n)"
    "norm_shaped mid ini (out_norm n)"
    and w: "shape (in_conv n) = [mid, cin, 3, 3]" "shape (mid_conv1 n) = [mid, mid, 3, 3]"
    "shape (mid_conv2 n) = [mid, mid, 1, 1]" "shape (out_conv_weight n) = [cout, mid, 3, 3]"
    and b: "Some (out_conv_bias n) = None
            \<or> (\<exists>bt. Some (out_conv_bias n) = Some bt \<and> shape bt = [cout])"
    using assms by (simp_all add: nn_shaped_def)
  have r: "shape (relu y) = shape y" for y by (simp add: relu_def)
  show ?thesis
    unfolding NN_forward_def NN_forward_shape_def
    apply (rule agrees_bnd[OF norm_sound[OF n(1)]])
    apply (clarsimp simp only: prod.case comp_apply fst_conv snd_conv split_paired_all)
    apply (rule agrees_bnd[OF conv2d_sound[OF w(1)]], simp)
    apply (rule agrees_bnd[OF conv2d_sound[OF w(1)]], simp)
    apply (rule agrees_bnd[OF conv2d_sound'[OF w(2) _ r]], simp)
    apply (rule agrees_bnd[OF norm_sound[OF n(2)]])
    apply (clarsimp simp only: prod.case comp_apply fst_conv snd_conv split_paired_all)
    apply (rule agrees_bnd[OF conv2d_sound'[OF w(3) _ r]], simp)
    apply (rule agrees_bnd[OF norm_sound[OF n(3)]])
    apply (clarsimp simp only: prod.case comp_apply fst_conv snd_conv split_paired_all)
    apply (rule agrees_ret[OF conv2d_sound'[OF w(4) b r]])
    apply simp
    done
qed

lemma coupling_change_sound:
  "agrees shape
     (if r then bnd (bop (*) xc (tmap exp (tmap (\<lambda>a. a * (- 1)) s))) (\<lambda>xc. bop (-) xc t)
      else bnd (bop (+) xc t) (\<lambda>xc. bop (*) xc (tmap exp s)))
     (if r then bnd (bcast (shape xc) (shape s)) (\<lambda>xc. bcast xc (shape t))
      else bnd (bcast (shape xc) (shape t)) (\<lambda>xc. bcast xc (shape s)))"
proof (cases r)
  case True
  have e: "shape (tmap exp (tmap (\<lambda>a. a * (- 1)) s)) = shape s" by simp
  from True have r: "r = True" by simp
  show ?thesis unfolding r if_True
    by (rule agrees_bnd[OF bop_sound'[OF refl e]]) (rule bop_sound)
next
  case False
  have e: "shape (tmap exp s) = shape s" by simp
  from False have r: "r = False" by simp
  show ?thesis unfolding r if_False
    by (rule agrees_bnd[OF bop_sound]) (rule bop_sound'[OF refl e])
qed

lemma coupling_ldj_sound:
  "agrees (map_option shape)
     (case ldj of
        None \<Rightarrow> Inr None
      | Some ldj \<Rightarrow>
          bnd (flatten_sum s) (\<lambda>d.
          bnd (if r then bop (-) ldj d else bop (+) ldj d) (\<lambda>ldj.
          Inr (Some ldj))))
     (case map_option shape ldj of
        None \<Rightarrow> Inr None
      | Some l \<Rightarrow> bnd (flatten_sum_shape (shape s)) (\<lambda>d. bnd (bcast l d) (\<lambda>l. Inr (Some l))))"
proof (cases ldj)
  case None
  then show ?thesis by (simp add: agrees_def)
next
  case (Some l)
  have b: "agrees shape (if r then bop (-) l d else bop (+) l d) (bcast (shape l) (shape d))"
    for d
    by (cases r) (simp_all only: if_True if_False bop_sound)
  show ?thesis unfolding Some option.case option.map
    by (rule agrees_bnd[OF flatten_sum_sound], rule agrees_bnd[OF b], simp add: agrees_def)
qed

lemma Coupling_forward_sound:
  assumes "coupling_shaped k mid ini cp"
  shows "agrees out3 (Coupling_forward cp x ldj r)
           (Coupling_forward_shape k mid ini (shape x) (map_option shape ldj) r)"
proof -
  have n: "nn_shaped k mid (2 * k) ini (nn cp)" and s: "shape (coupling_scale cp) = [k, 1, 1]"
    using assms by (simp_all add: coupling_shaped_def)
  have t: "shape (tmap tanh y) = shape y" for y by simp
  show ?thesis
    unfolding Coupling_forward_def Coupling_forward_shape_def
    apply (rule agrees_bnd[OF chunk2_sound])
    apply (clarsimp simp only: prod.case map_prod_simp split_paired_all)
    apply (rule agrees_bnd[OF NN_forward_sound[OF n]])
    apply (clarsimp simp only: prod.case comp_apply snd_conv split_paired_all)
    apply (rule agrees_bnd[OF strided1_sound])
    apply (rule agrees_bnd[OF strided1_sound])
    apply (rule agrees_bnd[OF bop_sound'[OF s t]])
    apply (rule agrees_bnd[OF coupling_change_sound])
    apply (rule agrees_bnd[OF coupling_ldj_sound])
    apply (rule agrees_bnd[OF cat1_sound])
    apply (simp add: agrees_def out3_def out2_def)
    done
qed

lemma out3_simp: "out3 (a, x, l) = (shape x, map_option shape l)"
  by (simp add: out3_def out2_def)

lemma out2_simp: "out2 (x, l) = (shape x, map_option shape l)"
  by (simp add: out2_def)

lemma agrees_out3_ret:
  assumes "agrees out3 m ms"
  shows "agrees out3 (bnd m (\<lambda>(a, x, l). Inr (h a, x, l))) ms"
  using assms by (cases m) (auto simp: agrees_def bnd_def out3_simp)

lemma FlowStep_forward_sound:
  assumes "step_shaped ini invt slogdet inv_fn st cm"
  shows "agrees out3 (FlowStep_forward slogdet inv_fn st x sldj r)
           (FlowStep_forward_shape cm ini invt (shape x) (map_option shape sldj) r)"
proof (cases cm)
  case (Pair C mid)
  have n: "norm_shaped C ini (norm_layer st)" and c: "conv_shaped C invt slogdet inv_fn (conv st)"
    and p: "coupling_shaped (C div 2) mid ini (coup st)"
    using assms by (simp_all add: step_shaped_def Pair)
  show ?thesis
  proof (cases r)
    case True
    then have r: "r = True" by simp
    show ?thesis
      unfolding FlowStep_forward_def FlowStep_forward_shape_def Pair prod.case r if_True
      apply (rule agrees_bnd[OF Coupling_forward_sound[OF p]])
      apply (clarsimp simp only: prod.case out3_simp split_paired_all)
      apply (rule agrees_bnd[OF InvConv_forward_sound[OF c]])
      apply (clarsimp simp only: prod.case out2_simp split_paired_all)
      apply (rule agrees_out3_ret[OF ActNorm_forward_sound[OF n]])
      done
  next
    case False
    then have r: "r = False" by simp
    show ?thesis
      unfolding FlowStep_forward_def FlowStep_forward_shape_def Pair prod.case r if_False
      apply (rule agrees_bnd[OF ActNorm_forward_sound[OF n]])
      apply (clarsimp simp only: prod.case out3_simp split_paired_all)
      apply (rule agrees_bnd[OF InvConv_forward_sound[OF c]])
      apply (clarsimp simp only: prod.case out2_simp split_paired_all)
      apply (rule agrees_out3_ret[OF Coupling_forward_sound[OF p]])
      done
  qed
qed

lemma steps_forward_sound:
  assumes "list_all2 (step_shaped ini invt slogdet inv_fn) steps ss"
  shows "agrees out3 (steps_forward slogdet inv_fn steps x sldj r)
           (steps_forward_shape ss ini invt (shape x) (map_option shape sldj) r)"
  using assms
proof (induction steps ss arbitrary: x sldj rule: list_all2_induct)
  case Nil
  then show ?case by (simp add: agrees_def out3_simp)
next
  case (Cons st steps cm ss)
  show ?case
    unfolding steps_forward.simps steps_forward_shape.simps
    apply (rule agrees_bnd[OF FlowStep_forward_sound[OF Cons.hyps(1)]])
    apply (clarsimp simp only: prod.case out3_simp split_paired_all)
    apply (rule agrees_out3_ret[OF Cons.IH])
    done
qed

lemma level_down_sound:
  assumes "list_all2 (step_shaped ini invt slogdet inv_fn) steps ss"
  shows "agrees out3
     (if \<not> r then
        bnd (steps_forward slogdet inv_fn steps x sldj r) (\<lambda>(steps, x, sldj).
        bnd (squeeze x False) (\<lambda>x. Inr (steps, x, sldj)))
      else Inr (steps, x, sldj))
     (if \<not> r then
        bnd (steps_forward_shape ss ini invt (shape x) (map_option shape sldj) r) (\<lambda>(x, sldj).
        bnd (squeeze_shape x False) (\<lambda>x. Inr (x, sldj)))
      else Inr (shape x, map_option shape sldj))"
proof (cases r)
  case True
  then show ?thesis by (simp add: agrees_def out3_simp)
next
  case False
  then have r: "r = False" by simp
  show ?thesis
    unfolding r not_False_eq_True if_True
    apply (rule agrees_bnd[OF steps_forward_sound[OF assms]])
    apply (clarsimp simp only: prod.case out3_simp split_paired_all)
    apply (rule agrees_bnd[OF squeeze_sound])
    apply (simp add: agrees_def out3_simp)
    done
qed

lemma level_up_sound:
  assumes "r \<Longrightarrow> list_all2 (step_shaped ini invt slogdet inv_fn) steps ss"
  shows "agrees out3
     (if r then
        bnd (squeeze x r) (\<lambda>x.
        bnd (steps_forward slogdet inv_fn (rev steps) x sldj r) (\<lambda>(steps, x, sldj).
        Inr (Glow_level (rev steps) nxt, x, sldj)))
      else Inr (Glow_level steps nxt, x, sldj))
     (if r then
        bnd (squeeze_shape (shape x) r) (\<lambda>x.
        steps_forward_shape (rev ss) ini invt x (map_option shape sldj) r)
      else Inr (shape x, map_option shape sldj))"
proof (cases r)
  case False
  then show ?thesis by (simp add: agrees_def out3_simp)
next
  case True
  then have r: "r = True" by simp
  have rv: "list_all2 (step_shaped ini invt slogdet inv_fn) (rev steps) (rev ss)"
    using assms True by simp
  show ?thesis
    unfolding r if_True
    apply (rule agrees_bnd[OF squeeze_sound])
    apply (rule agrees_out3_ret[OF steps_forward_sound[OF rv]])
    done
qed

lemma level_down_steps:
  assumes "(if \<not> r then
        bnd (steps_forward slogdet inv_fn steps x sldj r) (\<lambda>(steps, x, sldj).
        bnd (squeeze x False) (\<lambda>x. Inr (steps, x, sldj)))
      else Inr (steps, x, sldj)) = Inr (steps', x', sldj')" r
  shows "steps' = steps"
  using assms by simp

lemma Glow_level_forward_sound:
  assumes "glow_shaped (step_shaped ini invt slogdet inv_fn) g gs"
  shows "agrees out3 (Glow_level_forward slogdet inv_fn g x sldj r)
           (Glow_level_forward_shape gs ini invt (shape x) (map_option shape sldj) r)"
proof -
  define P where "P = step_shaped ini invt slogdet inv_fn"
  have "glow_shaped P g gs" "P = step_shaped ini invt slogdet inv_fn"
    using assms by (simp_all add: P_def)
  then show ?thesis
  proof (induction P g gs arbitrary: x sldj rule: glow_shaped.induct)
    case (1 P steps ss)
    then have l: "list_all2 (step_shaped ini invt slogdet inv_fn) steps ss" by simp
    show ?case
      unfolding Glow_level_forward.simps Glow_level_forward_shape.simps option.case
      apply (rule agrees_bnd[OF level_down_sound[OF l]])
      apply (clarsimp simp only: prod.case out3_simp split_paired_all)
      apply (rule agrees_bnd[where a = out3])
       apply (simp add: agrees_def out3_simp)
      apply (clarsimp simp only: prod.case out3_simp split_paired_all)
      apply (rule level_up_sound)
      apply (drule (1) level_down_steps)
      apply (simp add: l)
      done
  next
    case (2 P steps n ss m)
    then have l: "list_all2 (step_shaped ini invt slogdet inv_fn) steps ss"
      and g: "glow_shaped P n m" by simp_all
    note ih = "2.IH"[OF g "2.prems"(2)]
    show ?case
      unfolding Glow_level_forward.simps Glow_level_forward_shape.simps option.case
      apply (rule agrees_bnd[OF level_down_sound[OF l]])
      apply (clarsimp simp only: prod.case out3_simp split_paired_all)
      apply (rule agrees_bnd[OF agrees_out3_ret[OF ih]])
      apply (clarsimp simp only: prod.case out3_simp split_paired_all)
      apply (rule level_up_sound)
      apply (drule (1) level_down_steps)
      apply (simp add: l)
      done
  qed simp_all
qed

lemma logdetgrad_same:
  "logdetgrad x = Inl NonFinite \<or> (\<exists>g. logdetgrad x = Inr g \<and> shape g = shape x)"
  by (simp add: logdetgrad_def log_t_def bnd_def)

lemma batch_sum_sound: "agrees shape (batch_sum t) (batch_sum_shape (shape t))"
  by (auto simp: agrees_def batch_sum_def batch_sum_shape_def view_def bnd_def shape_tabulate
           split: list.splits)

lemma batch_sum_sound': "shape t = s \<Longrightarrow> agrees shape (batch_sum t) (batch_sum_shape s)"
  using batch_sum_sound by blast

lemma LogitTransform_inverse_sound:
  "agrees out2 (LogitTransform_inverse y sldj)
     (LogitTransform_inverse_shape (shape y) (map_option shape sldj))"
proof (cases sldj)
  case None
  then show ?thesis
    by (simp add: LogitTransform_inverse_def LogitTransform_inverse_shape_def agrees_def
        out2_simp)
next
  case (Some l)
  show ?thesis
    unfolding LogitTransform_inverse_def LogitTransform_inverse_shape_def Some Let_def
      option.case option.map
    apply (rule agrees_bnd_same[OF logdetgrad_same])
    apply (rule agrees_bnd[OF batch_sum_sound'])
     apply simp
    apply (rule agrees_bnd[OF bop_sound])
    apply (simp add: agrees_def out2_simp)
    done
qed

lemma bop_same_shape:
  assumes "shape a = s" "shape b = s"
  shows "bop f a b = Inl NonFinite \<or> (\<exists>y. bop f a b = Inr y \<and> shape y = s)"
  using assms by (simp add: bop_def shape_tabulate)

lemma logit_sldj_sound:
  assumes "shape y = shape x"
  shows "agrees out2
     (case sldj of
        None \<Rightarrow> Inr (y, None)
      | Some sldj \<Rightarrow>
          bnd (logdetgrad x) (\<lambda>g.
          bnd (batch_sum g) (\<lambda>d.
          bnd (view d [prod_list (shape d)]) (\<lambda>d.
          bnd (bop (+) sldj d) (\<lambda>sldj. Inr (y, Some sldj))))))
     (case map_option shape sldj of
        None \<Rightarrow> Inr (shape x, None)
      | Some l \<Rightarrow>
          bnd (batch_sum_shape (shape x)) (\<lambda>d.
          bnd (view_shape d [prod_list d]) (\<lambda>d.
          bnd (bcast l d) (\<lambda>l. Inr (shape x, Some l)))))"
proof (cases sldj)
  case None
  then show ?thesis by (simp add: agrees_def out2_simp assms)
next
  case (Some l)
  show ?thesis
    unfolding Some option.case option.map
    apply (rule agrees_bnd_same[OF logdetgrad_same])
    apply (rule agrees_bnd[OF batch_sum_sound'])
     apply simp
    apply (rule agrees_bnd[OF view_sound])
    apply (rule agrees_bnd[OF bop_sound])
    apply (simp add: agrees_def out2_simp assms)
    done
qed

lemma LogitTransform_forward_sound:
  "agrees out2 (LogitTransform_forward x sldj r)
     (LogitTransform_forward_shape (shape x) (map_option shape sldj) r)"
proof (cases r)
  case True
  then show ?thesis
    by (simp add: LogitTransform_forward_def LogitTransform_forward_shape_def
        LogitTransform_inverse_sound)
next
  case False
  then have r: "r = False" by simp
  show ?thesis
    unfolding LogitTransform_forward_def LogitTransform_forward_shape_def r if_False Let_def
    apply (rule agrees_bnd_same[OF log_t_same])
    apply (rule agrees_bnd_same[OF log_t_same])
    apply (rule agrees_bnd_same[OF bop_same_shape[where s = "shape x"]])
      apply simp
     apply simp
    apply (rule logit_sldj_sound)
    apply assumption
    done
qed

lemma Glow_forward_sound:
  assumes "glow_shaped (step_shaped ini invt slogdet inv_fn) g gs"
  shows "agrees out3 (Glow_forward slogdet inv_fn g x sldj r)
           (Glow_forward_shape gs ini invt (shape x) (map_option shape sldj) r)"
proof -
  have d: "agrees out2
     (if \<not> r then
        bnd (LogitTransform_forward x sldj False) (\<lambda>(x, sldj).
        bnd (squeeze x False) (\<lambda>x. Inr (x, sldj)))
      else Inr (x, sldj))
     (if \<not> r then
        bnd (LogitTransform_forward_shape (shape x) (map_option shape sldj) False) (\<lambda>(x, sldj).
        bnd (squeeze_shape x False) (\<lambda>x. Inr (x, sldj)))
      else Inr (shape x, map_option shape sldj))"
  proof (cases r)
    case True
    then show ?thesis by (simp add: agrees_def out2_simp)
  next
    case False
    then have r: "r = False" by simp
    show ?thesis
      unfolding r not_False_eq_True if_True
      apply (rule agrees_bnd[OF LogitTransform_forward_sound])
      apply (clarsimp simp only: prod.case out2_simp split_paired_all)
      apply (rule agrees_bnd[OF squeeze_sound])
      apply (simp add: agrees_def out2_simp)
      done
  qed
  have u: "agrees out3
     (if r then
        bnd (squeeze x' True) (\<lambda>x.
        bnd (LogitTransform_forward x l True) (\<lambda>(x, sldj). Inr (flows, x, sldj)))
      else Inr (flows, x', l))
     (if r then
        bnd (squeeze_shape (shape x') True) (\<lambda>x.
        LogitTransform_forward_shape x (map_option shape l) True)
      else Inr (shape x', map_option shape l))" for x' l flows
  proof (cases r)
    case False
    then show ?thesis by (simp add: agrees_def out3_simp)
  next
    case True
    then have r: "r = True" by simp
    have e: "agrees out3 (bnd m (\<lambda>(x, sldj). Inr (flows, x, sldj))) ms"
      if "agrees out2 m ms" for m ms
      using that by (cases m) (auto simp: agrees_def bnd_def out3_simp out2_simp)
    show ?thesis
      unfolding r if_True
      apply (rule agrees_bnd[OF squeeze_sound])
      apply (rule e[OF LogitTransform_forward_sound])
      done
  qed
  show ?thesis
    unfolding Glow_forward_def Glow_forward_shape_def
    apply (rule agrees_bnd[OF d])
    apply (clarsimp simp only: prod.case out2_simp split_paired_all)
    apply (rule agrees_bnd[OF Glow_level_forward_sound[OF assms]])
    apply (clarsimp simp only: prod.case out3_simp split_paired_all)
    apply (rule u)
    done
qed

lemma norm_shaped_init: "norm_shaped C True (ActNorm_init C 1)"
  by (simp add: norm_shaped_def ActNorm_init_def shape_zeros)

lemma nn_shaped_init:
  assumes "shape w1 = [mid, cin, 3, 3]" "shape w2 = [mid, mid, 3, 3]" "shape w3 = [mid, mid, 1, 1]"
  shows "nn_shaped cin mid cout True (NN_init cin mid cout w1 w2 w3)"
  using assms by (simp add: nn_shaped_def NN_init_def norm_shaped_init shape_zeros)

lemma coupling_shaped_init:
  assumes "shape w1 = [mid, k, 3, 3]" "shape w2 = [mid, mid, 3, 3]" "shape w3 = [mid, mid, 1, 1]"
  shows "coupling_shaped k mid True (Coupling_init k mid w1 w2 w3)"
  using assms by (simp add: coupling_shaped_def Coupling_init_def nn_shaped_init shape_ones)

lemma step_shaped_init:
  assumes "draws_shaped C mid invt slogdet inv_fn d"
  shows "step_shaped True invt slogdet inv_fn (FlowStep_init C mid d) (C, mid)"
  using assms
  by (cases d)
     (simp add: draws_shaped_def step_shaped_def FlowStep_init_def norm_shaped_init
        coupling_shaped_init)

lemma steps_shaped_init:
  assumes "\<forall>c i. draws_shaped c mid invt slogdet inv_fn (rnd c i)"
  shows "list_all2 (step_shaped True invt slogdet inv_fn)
           (map (\<lambda>i. FlowStep_init C mid (rnd C i)) [0..<k]) (replicate k (C, mid))"
  using assms by (simp add: list_all2_conv_all_nth step_shaped_init)

lemma glow_shaped_level_init:
  assumes "\<forall>c i. draws_shaped c mid invt slogdet inv_fn (rnd c i)"
  shows "glow_shaped (step_shaped True invt slogdet inv_fn)
           (Glow_level_init c mid n k rnd) (Glow_level_init_shape c mid n k)"
proof (induction n arbitrary: c)
  case 0
  from steps_shaped_init[OF assms] show ?case by simp
next
  case (Suc n)
  note l = steps_shaped_init[OF assms]
  show ?case
  proof (cases "n = 0")
    case True
    then show ?thesis using l by simp
  next
    case False
    then show ?thesis using l Suc.IH[of "4 * c"] by simp
  qed
qed

lemma glow_shaped_init:
  assumes "\<forall>c i. draws_shaped c mid invt slogdet inv_fn (rnd c i)"
  shows "glow_shaped (step_shaped True invt slogdet inv_fn)
           (Glow_init c mid n k rnd) (Glow_init_shape c mid n k)"
  unfolding Glow_init_def Glow_init_shape_def by (rule glow_shaped_level_init[OF assms])

lemma bnd_Inr_iff: "bnd m f = Inr v \<longleftrightarrow> (\<exists>u. m = Inr u \<and> f u = Inr v)"
  by (cases m) (simp_all add: bnd_def)

lemma ActNorm_forward_state:
  assumes "ActNorm_forward n x ldj r = Inr (n', y, l)"
  shows "(if is_initialized n = 0 then initialize_parameters n x else Inr n) = Inr n'"
  using assms
  by (auto simp: ActNorm_forward_def bnd_Inr_iff split: if_splits prod.splits)

lemma norm_shaped_after:
  assumes "norm_shaped C ini n" "ActNorm_forward n x ldj r = Inr (n', y, l)"
  shows "norm_shaped C False n'"
proof -
  note s = ActNorm_forward_state[OF assms(2)]
  have sh: "shape (bias n) = [1, C, 1, 1]" "shape (logs n) = [1, C, 1, 1]"
    using assms(1) by (simp_all add: norm_shaped_def)
  show ?thesis
  proof (cases "is_initialized n = 0 \<and> training n")
    case True
    then have i: "initialize_parameters n x = Inr n'" using s by simp
    then have "is_initialized n' = 1" using True
      by (auto simp: initialize_parameters_def bnd_Inr_iff Let_def)
    then show ?thesis using initialize_parameters_shapes[OF i] sh by (simp add: norm_shaped_def)
  next
    case False
    then have "n' = n" using s by (auto simp: initialize_parameters_def split: if_splits)
    then show ?thesis using False sh by (auto simp: norm_shaped_def)
  qed
qed

lemma nn_shaped_after:
  assumes "nn_shaped cin mid cout ini n" "NN_forward n x = Inr (n', y)"
  shows "nn_shaped cin mid cout False n'"
  using assms
  by (auto simp: NN_forward_def bnd_Inr_iff nn_shaped_def split: prod.splits
           intro: norm_shaped_after)

lemma coupling_shaped_after:
  assumes "coupling_shaped k mid ini cp" "Coupling_forward cp x ldj r = Inr (cp', y, l)"
  shows "coupling_shaped k mid False cp'"
  using assms
  by (auto simp: Coupling_forward_def bnd_Inr_iff coupling_shaped_def split: prod.splits
           intro: nn_shaped_after)

lemma step_shaped_after:
  assumes "step_shaped ini invt slogdet inv_fn st cm"
    "FlowStep_forward slogdet inv_fn st x sldj r = Inr (st', y, l)"
  shows "step_shaped False invt slogdet inv_fn st' cm"
  using assms
  by (cases cm)
     (auto simp: FlowStep_forward_def bnd_Inr_iff step_shaped_def split: prod.splits if_splits
           intro: norm_shaped_after coupling_shaped_after)

lemma steps_shaped_after:
  assumes "list_all2 (step_shaped ini invt slogdet inv_fn) steps ss"
    "steps_forward slogdet inv_fn steps x sldj r = Inr (steps', y, l)"
  shows "list_all2 (step_shaped False invt slogdet inv_fn) steps' ss"
  using assms
proof (induction steps ss arbitrary: x sldj steps' rule: list_all2_induct)
  case Nil
  then show ?case by simp
next
  case (Cons st steps cm ss)
  from Cons.prems obtain st' x1 l1 sts' where
    a: "FlowStep_forward slogdet inv_fn st x sldj r = Inr (st', x1, l1)"
    and b: "steps_forward slogdet inv_fn steps x1 l1 r = Inr (sts', y, l)"
    and c: "steps' = st' # sts'"
    by (auto simp: bnd_Inr_iff split: prod.splits)
  show ?case unfolding c
    using step_shaped_after[OF Cons.hyps(1) a] Cons.IH[OF b] by simp
qed

lemma Glow_level_forward_Inr:
  assumes "Glow_level_forward slogdet inv_fn (Glow_level steps nxt) x sldj r = Inr (g', y, l)"
  shows "\<exists>steps' nxt'. g' = Glow_level steps' nxt'
           \<and> (nxt = None \<longrightarrow> nxt' = None)
           \<and> (\<forall>n. nxt = Some n \<longrightarrow>
                 (\<exists>n' x1 l1 x2 l2. nxt' = Some n'
                    \<and> Glow_level_forward slogdet inv_fn n x1 l1 r = Inr (n', x2, l2)))
           \<and> (if r then \<exists>x1 l1. steps_forward slogdet inv_fn (rev steps) x1 l1 True
                                   = Inr (rev steps', y, l)
               else \<exists>x1 l1. steps_forward slogdet inv_fn steps x sldj False
                              = Inr (steps', x1, l1))"
proof (cases r)
  case False
  with assms show ?thesis
    by (cases nxt) (auto simp: bnd_Inr_iff split: prod.splits, blast)
next
  case True
  with assms show ?thesis
    by (cases nxt) (auto simp: bnd_Inr_iff split: prod.splits, blast+)
qed

lemma level_steps_after:
  assumes l: "list_all2 (step_shaped ini invt slogdet inv_fn) steps ss"
    and f: "if r then \<exists>x1 l1. steps_forward slogdet inv_fn (rev steps) x1 l1 True
                                   = Inr (rev steps', y, l)
               else \<exists>x1 l1. steps_forward slogdet inv_fn steps x sldj False
                              = Inr (steps', x1, l1)"
  shows "list_all2 (step_shaped False invt slogdet inv_fn) steps' ss"
proof (cases r)
  case False
  with f obtain x1 l1 where
    a: "steps_forward slogdet inv_fn steps x sldj False = Inr (steps', x1, l1)" by auto
  show ?thesis by (rule steps_shaped_after[OF l a])
next
  case True
  with f obtain x1 l1 where
    a: "steps_forward slogdet inv_fn (rev steps) x1 l1 True = Inr (rev steps', y, l)" by auto
  have "list_all2 (step_shaped ini invt slogdet inv_fn) (rev steps) (rev ss)" using l by simp
  from steps_shaped_after[OF this a] show ?thesis by simp
qed

lemma glow_shaped_after:
  assumes "glow_shaped (step_shaped ini invt slogdet inv_fn) g gs"
    "Glow_level_forward slogdet inv_fn g x sldj r = Inr (g', y, l)"
  shows "glow_shaped (step_shaped False invt slogdet inv_fn) g' gs"
proof -
  define P where "P = step_shaped ini invt slogdet inv_fn"
  have "glow_shaped P g gs" "P = step_shaped ini invt slogdet inv_fn"
    using assms(1) by (simp_all add: P_def)
  then show ?thesis using assms(2)
  proof (induction P g gs arbitrary: x sldj g' y l rule: glow_shaped.induct)
    case (1 P steps ss)
    then have s: "list_all2 (step_shaped ini invt slogdet inv_fn) steps ss" by simp
    from Glow_level_forward_Inr[OF "1.prems"(3)] obtain steps' where
      g: "g' = Glow_level steps' None"
      and f: "if r then \<exists>x1 l1. steps_forward slogdet inv_fn (rev steps) x1 l1 True
                                   = Inr (rev steps', y, l)
               else \<exists>x1 l1. steps_forward slogdet inv_fn steps x sldj False
                              = Inr (steps', x1, l1)"
      by auto
    show ?case unfolding g using level_steps_after[OF s f] by simp
  next
    case (2 P steps n ss m)
    then have s: "list_all2 (step_shaped ini invt slogdet inv_fn) steps ss"
      and gm: "glow_shaped P n m" by simp_all
    from Glow_level_forward_Inr[OF "2.prems"(3)] obtain steps' n' x1 l1 x2 l2 where
      g: "g' = Glow_level steps' (Some n')"
      and nf: "Glow_level_forward slogdet inv_fn n x1 l1 r = Inr (n', x2, l2)"
      and f: "if r then \<exists>x1 l1. steps_forward slogdet inv_fn (rev steps) x1 l1 True
                                   = Inr (rev steps', y, l)
               else \<exists>x1 l1. steps_forward slogdet inv_fn steps x sldj False
                              = Inr (steps', x1, l1)"
      by auto
    show ?case unfolding g
      using level_steps_after[OF s f] "2.IH"[OF gm "2.prems"(2) nf] by simp
  qed simp_all
qed

lemma Glow_forward_state:
  assumes "Glow_forward slogdet inv_fn g x sldj r = Inr (g', y, l)"
  shows "\<exists>x1 l1 x2 l2. Glow_level_forward slogdet inv_fn g x1 l1 r = Inr (g', x2, l2)"
  using assms
  by (auto simp: Glow_forward_def bnd_Inr_iff split: prod.splits if_splits)

text \<open>
  Claim C1, the log-determinant accumulator. \<open>LogitTransform.forward\<close> adds the
  per-image sums to the accumulator as a tensor of shape \<open>(b)\<close>;
  \<open>LogitTransform.inverse\<close> subtracts them as a tensor of shape \<open>(b, 1)\<close>. For a
  batch \<open>x\<close> with values in \<open>(0, 1)\<close> and an accumulator \<open>l\<close> of shape \<open>(b)\<close>,
  the forward pass followed by the inverse pass returns \<open>x\<close> and an accumulator of shape
  \<open>(b, b)\<close>, whose entry \<open>(i, j)\<close> is \<open>l j\<close> plus the sum of image \<open>j\<close> minus the
  sum of image \<open>i\<close>. The same holds for the shapes through the whole model: here the
  flow with \<open>num_levels = 3\<close>, \<open>num_steps = 1\<close>, \<open>in_channels = 1\<close> on a batch of
  \<open>b\<close> images of 32 by 32.
\<close>

theorem Glow_roundtrip_sldj_shape:
  assumes "wf_tensor x" "shape x = b # rest" "0 < b" "\<forall>a \<in> set (dat x). 0 < a \<and> a < 1"
    and "shape l = [b]"
  shows "(\<exists>y d l1 l2.
            LogitTransform_forward x (Some l) False = Inr (y, Some l1)
          \<and> LogitTransform_forward y (Some l1) True = Inr (x, Some l2)
          \<and> bnd (logdetgrad x) batch_sum = Inr d
          \<and> shape l1 = [b] \<and> shape l2 = [b, b]
          \<and> (\<forall>i < b. \<forall>j < b. get l2 [i, j] = get l [j] + get d [j, 0] - get d [i, 0]))
       \<and> bnd (Glow_forward_shape (Glow_init_shape 1 16 3 1) ini True [b, 1, 32, 32] (Some [b]) False)
           (\<lambda>(z, sldj). Glow_forward_shape (Glow_init_shape 1 16 3 1) False True z sldj True)
         = Inr ([b, 1, 32, 32], Some [b, b])"
proof -
  have "bnd (Glow_forward_shape (Glow_init_shape 1 16 3 1) ini True [b, 1, 32, 32] (Some [b]) False)
           (\<lambda>(z, sldj). Glow_forward_shape (Glow_init_shape 1 16 3 1) False True z sldj True)
         = Inr ([b, 1, 32, 32], Some [b, b])"
    using assms(3) by (simp add: shape_eval)
  then show ?thesis using LogitTransform_roundtrip[OF assms] by blast
qed

theorem Glow_roundtrip_sldj_shape_witness:
  "\<exists>y l1 l2.
      LogitTransform_forward \<lparr>shape = [2, 1, 1, 1], dat = [1 / 2, 1 / 4]\<rparr>
         (Some \<lparr>shape = [2], dat = [0, 0]\<rparr>) False = Inr (y, Some l1)
    \<and> LogitTransform_forward y (Some l1) True
         = Inr (\<lparr>shape = [2, 1, 1, 1], dat = [1 / 2, 1 / 4]\<rparr>, Some l2)
    \<and> shape l2 = [2, 2] \<and> get l2 [0, 1] \<noteq> 0"
proof -
  let ?x = "\<lparr>shape = [2, 1, 1, 1], dat = [1 / 2, 1 / 4 :: real]\<rparr>"
  let ?l = "\<lparr>shape = [2], dat = [0, 0 :: real]\<rparr>"
  let ?g = "\<lambda>a. - ln ((alpha + (1 - 2 * alpha) * a)
                              - (alpha + (1 - 2 * alpha) * a) * (alpha + (1 - 2 * alpha) * a))
                        + ln (1 - 2 * alpha)"
  have h: "wf_tensor ?x" "shape ?x = 2 # [1, 1, 1]" "(0::nat) < 2"
    "\<forall>a \<in> set (dat ?x). 0 < a \<and> a < 1" "shape ?l = [2]"
    by (simp_all add: wf_tensor_def)
  from Glow_roundtrip_sldj_shape[OF h] obtain y d l1 l2 where
    r: "LogitTransform_forward ?x (Some ?l) False = Inr (y, Some l1)"
       "LogitTransform_forward y (Some l1) True = Inr (?x, Some l2)"
       "bnd (logdetgrad ?x) batch_sum = Inr d" "shape l2 = [2, 2]"
       "\<forall>i < 2. \<forall>j < 2. get l2 [i, j] = get ?l [j] + get d [j, 0] - get d [i, 0]"
    by blast
  have "bnd (logdetgrad ?x) batch_sum = Inr \<lparr>shape = [2, 1], dat = [?g (1 / 2), ?g (1 / 4)]\<rparr>"
    unfolding logdetgrad_ok[OF h(4)]
    by (simp add: bnd_def batch_sum_def view_def tabulate_def get_def ravel.simps
        unravel.simps upt_rec tmap_def)
  then have d: "d = \<lparr>shape = [2, 1], dat = [?g (1 / 2), ?g (1 / 4)]\<rparr>" using r(3) by simp
  have "get l2 [0, 1] = get ?l [1] + get d [1, 0] - get d [0, 0]" using r(5) by simp
  also have "\<dots> = ?g (1 / 4) - ?g (1 / 2)" by (simp add: d get_def ravel.simps)
  also have "\<dots> \<noteq> 0" by (simp add: alpha_def)
  finally show ?thesis using r by blast
qed

text \<open>
  Claim C2, as the code has it: the flow built with \<open>num_levels = 3\<close>,
  \<open>num_steps = 1\<close>, \<open>in_channels = 1\<close> maps a batch of 8 images of 32 by 32 to
  a tensor of shape \<open>(8, 4^4, 2, 2)\<close>, not \<open>(8, 4^3, 4, 4)\<close>.
\<close>

theorem Glow_forward_shape_counterexample:
  "Glow_forward_shape (Glow_init_shape 1 16 3 1) False True [8, 1, 32, 32] (Some [8]) False
     = Inr ([8, 4 ^ 4, 2, 2], Some [8]) \<and> [8, 4 ^ 4, 2, 2] \<noteq> [8, 4 ^ 3, 4, 4 :: nat]"
  by (simp add: shape_eval)

text \<open>
  Claim C2, amended: every level squeezes after its steps, the terminal level (built with
  \<open>num_levels = 1\<close>, no child) included; so the terminal level of the flow built with
  \<open>num_levels = 3\<close>, \<open>num_steps = 1\<close>, \<open>in_channels = 1\<close> turns \<open>(8, 64, 4, 4)\<close>
  into \<open>(8, 256, 2, 2)\<close>, and the forward pass on a batch of 8 images of 32 by 32
  returns a tensor of shape \<open>(8, 4^4, 2, 2)\<close>.
\<close>

theorem Glow_terminal_level_squeezes:
  assumes "0 < mid"
  shows "next_s (Glow_level_init_shape c mid 1 k) = None
       \<and> Glow_level_forward_shape (Glow_s steps None) ini invt x sldj False
           = bnd (steps_forward_shape steps ini invt x sldj False) (\<lambda>(x, sldj).
               bnd (squeeze_shape x False) (\<lambda>x. Inr (x, sldj)))
       \<and> Glow_level_forward_shape (Glow_level_init_shape 64 mid 1 1) ini invt
             [8, 64, 4, 4] (Some [8]) False = Inr ([8, 256, 2, 2], Some [8])
       \<and> Glow_forward_shape (Glow_init_shape 1 mid 3 1) ini invt [8, 1, 32, 32] (Some [8]) False
           = Inr ([8, 4 ^ 4, 2, 2], Some [8])"
proof -
  have a: "Glow_level_forward_shape (Glow_s steps None) ini invt x sldj False
           = bnd (steps_forward_shape steps ini invt x sldj False) (\<lambda>(x, sldj).
               bnd (squeeze_shape x False) (\<lambda>x. Inr (x, sldj)))"
    by (simp add: bnd_def split: sum.splits)
  have b: "Glow_level_forward_shape (Glow_level_init_shape 64 mid 1 1) ini invt
             [8, 64, 4, 4] (Some [8]) False = Inr ([8, 256, 2, 2], Some [8])"
    using assms by (simp add: shape_eval)
  have c: "Glow_forward_shape (Glow_init_shape 1 mid 3 1) ini invt [8, 1, 32, 32] (Some [8]) False
           = Inr ([8, 4 ^ 4, 2, 2], Some [8])"
    using assms by (simp add: shape_eval)
  show ?thesis using a b c by simp
qed

theorem Glow_terminal_level_squeezes_witness:
  "Glow_forward_shape (Glow_init_shape 1 16 3 1) True True [8, 1, 32, 32] (Some [8]) False
     = Inr ([8, 256, 2, 2], Some [8])"
  using Glow_terminal_level_squeezes[of 16 1 1 "[]" True True "[]" None] by simp




text \<open>
  Claim C4: for a layer in training mode whose flag \<open>is_initialized\<close> is still zero,
  \<open>forward\<close> on a batch \<open>x\<close> of shape \<open>(b, c, h, w)\<close> sets \<open>bias\<close> to minus
  the per-channel mean of \<open>x\<close>: entry \<open>j\<close> is minus the sum of \<open>x[n, j, y, z]\<close>
  over the batch and the two spatial axes, divided by \<open>b * h * w\<close>. It sets \<open>logs\<close>
  to \<open>log (scale / (sqrt v + eps))\<close>, where entry \<open>j\<close> of \<open>v\<close> is the sum of the
  squares of \<open>x[n, j, y, z] + bias[j]\<close> divided by \<open>b * h * w\<close>, and the flag to 1.
  A second call on another batch \<open>x2\<close> returns the layer as it is. And whenever the
  flag is not zero or the layer is not in training mode, \<open>forward\<close> returns the layer
  as it is. (For the batch \<open>1, 3\<close> of one channel the bias becomes \<open>- 2\<close>.)
\<close>

theorem ActNorm_one_shot_init:
  assumes "wf_tensor x" "shape x = [b, c, h, w]" "0 < b" "0 < h" "0 < w"
    and "shape (bias self) = [1, c, 1, 1]" "shape (logs self) = [1, c, 1, 1]"
    and "training self" "is_initialized self = 0" "0 < scale self" "0 < eps self"
    and "wf_tensor x2" "shape x2 = [b2, c, h2, w2]"
  shows "(\<exists>self' y l m xc v.
            ActNorm_forward self x ldj reverse = Inr (self', y, l)
          \<and> mean_dim x [0, 2, 3] True = Inr m \<and> bias self' = tmap uminus m
          \<and> bop (+) x (tmap uminus m) = Inr xc
          \<and> mean_dim (tmap (\<lambda>a. a\<^sup>2) xc) [0, 2, 3] True = Inr v
          \<and> logs self' = tmap (\<lambda>a. ln (scale self / (sqrt a + eps self))) v
          \<and> shape (bias self') = [1, c, 1, 1] \<and> wf_tensor (bias self')
          \<and> shape (logs self') = [1, c, 1, 1] \<and> wf_tensor (logs self')
          \<and> (\<forall>j<c. get (bias self') [0, j, 0, 0]
                  = - ((\<Sum>n\<leftarrow>[0..<b]. \<Sum>y\<leftarrow>[0..<h]. \<Sum>z\<leftarrow>[0..<w]. get x [n, j, y, z])
                       / real (b * h * w)))
          \<and> (\<forall>j<c. get (logs self') [0, j, 0, 0]
                  = ln (scale self
                        / (sqrt ((\<Sum>n\<leftarrow>[0..<b]. \<Sum>y\<leftarrow>[0..<h]. \<Sum>z\<leftarrow>[0..<w].
                                    (get x [n, j, y, z] + get (bias self') [0, j, 0, 0])\<^sup>2)
                                 / real (b * h * w))
                           + eps self)))
          \<and> is_initialized self' = 1 \<and> training self'
          \<and> (\<exists>y2 l2. ActNorm_forward self' x2 ldj2 reverse2 = Inr (self', y2, l2)))
       \<and> (\<forall>s x3 ldj3 reverse3 s' y3 l3.
            (is_initialized s \<noteq> 0 \<or> \<not> training s)
            \<and> ActNorm_forward s x3 ldj3 reverse3 = Inr (s', y3, l3) \<longrightarrow> s' = s)"
proof -
  from initialize_parameters_ok[OF assms(1-7) assms(8) assms(10,11)] obtain m xc v where
    i: "mean_dim x [0, 2, 3] True = Inr m" "bop (+) x (tmap uminus m) = Inr xc"
       "mean_dim (tmap (\<lambda>a. a\<^sup>2) xc) [0, 2, 3] True = Inr v"
       "initialize_parameters self x
              = Inr (self\<lparr>bias := tmap uminus m,
                          logs := tmap (\<lambda>a. ln (scale self / (sqrt a + eps self))) v,
                          is_initialized := is_initialized self + 1\<rparr>)"
    by blast
  let ?s = "self\<lparr>bias := tmap uminus m,
                 logs := tmap (\<lambda>a. ln (scale self / (sqrt a + eps self))) v,
                 is_initialized := is_initialized self + 1\<rparr>"
  from ActNorm_forward_ok[OF assms(1,2,6,7), of ldj reverse] assms(3-5,10,11) obtain self' y l
    where f: "ActNorm_forward self x ldj reverse = Inr (self', y, l)"
      "shape (bias self') = [1, c, 1, 1]" "shape (logs self') = [1, c, 1, 1]"
      "initialize_parameters self x = Inr self'"
    using assms(9) by auto
  have s: "self' = ?s" using f(4) i(4) by simp
  have flag: "is_initialized self' = 1" "training self'" using s assms(8,9) by simp_all
  note vals = initialize_parameters_values[OF assms(1-7) assms(8) assms(10,11) f(4)]
  from ActNorm_forward_ok[OF assms(12,13) f(2,3), of ldj2 reverse2] flag
  have second: "\<exists>y2 l2. ActNorm_forward self' x2 ldj2 reverse2 = Inr (self', y2, l2)"
    by auto
  have b: "bias self' = tmap uminus m"
    and lg: "logs self' = tmap (\<lambda>a. ln (scale self / (sqrt a + eps self))) v"
    using s by simp_all
  have bv: "\<forall>j<c. get (bias self') [0, j, 0, 0]
                  = - ((\<Sum>n\<leftarrow>[0..<b]. \<Sum>y\<leftarrow>[0..<h]. \<Sum>z\<leftarrow>[0..<w]. get x [n, j, y, z])
                       / real (b * h * w))"
    using vals(5) by blast
  have lv: "\<forall>j<c. get (logs self') [0, j, 0, 0]
                  = ln (scale self
                        / (sqrt ((\<Sum>n\<leftarrow>[0..<b]. \<Sum>y\<leftarrow>[0..<h]. \<Sum>z\<leftarrow>[0..<w].
                                    (get x [n, j, y, z] + get (bias self') [0, j, 0, 0])\<^sup>2)
                                 / real (b * h * w))
                           + eps self))"
    using vals(6) by blast
  have "ActNorm_forward self x ldj reverse = Inr (self', y, l)
          \<and> mean_dim x [0, 2, 3] True = Inr m \<and> bias self' = tmap uminus m
          \<and> bop (+) x (tmap uminus m) = Inr xc
          \<and> mean_dim (tmap (\<lambda>a. a\<^sup>2) xc) [0, 2, 3] True = Inr v
          \<and> logs self' = tmap (\<lambda>a. ln (scale self / (sqrt a + eps self))) v
          \<and> shape (bias self') = [1, c, 1, 1] \<and> wf_tensor (bias self')
          \<and> shape (logs self') = [1, c, 1, 1] \<and> wf_tensor (logs self')
          \<and> (\<forall>j<c. get (bias self') [0, j, 0, 0]
                  = - ((\<Sum>n\<leftarrow>[0..<b]. \<Sum>y\<leftarrow>[0..<h]. \<Sum>z\<leftarrow>[0..<w]. get x [n, j, y, z])
                       / real (b * h * w)))
          \<and> (\<forall>j<c. get (logs self') [0, j, 0, 0]
                  = ln (scale self
                        / (sqrt ((\<Sum>n\<leftarrow>[0..<b]. \<Sum>y\<leftarrow>[0..<h]. \<Sum>z\<leftarrow>[0..<w].
                                    (get x [n, j, y, z] + get (bias self') [0, j, 0, 0])\<^sup>2)
                                 / real (b * h * w))
                           + eps self)))
          \<and> is_initialized self' = 1 \<and> training self'
          \<and> (\<exists>y2 l2. ActNorm_forward self' x2 ldj2 reverse2 = Inr (self', y2, l2))"
    by (intro conjI f(1) i(1-3) b lg vals(1-4) bv lv flag second)
  then have first: "\<exists>self' y l m xc v.
            ActNorm_forward self x ldj reverse = Inr (self', y, l)
          \<and> mean_dim x [0, 2, 3] True = Inr m \<and> bias self' = tmap uminus m
          \<and> bop (+) x (tmap uminus m) = Inr xc
          \<and> mean_dim (tmap (\<lambda>a. a\<^sup>2) xc) [0, 2, 3] True = Inr v
          \<and> logs self' = tmap (\<lambda>a. ln (scale self / (sqrt a + eps self))) v
          \<and> shape (bias self') = [1, c, 1, 1] \<and> wf_tensor (bias self')
          \<and> shape (logs self') = [1, c, 1, 1] \<and> wf_tensor (logs self')
          \<and> (\<forall>j<c. get (bias self') [0, j, 0, 0]
                  = - ((\<Sum>n\<leftarrow>[0..<b]. \<Sum>y\<leftarrow>[0..<h]. \<Sum>z\<leftarrow>[0..<w]. get x [n, j, y, z])
                       / real (b * h * w)))
          \<and> (\<forall>j<c. get (logs self') [0, j, 0, 0]
                  = ln (scale self
                        / (sqrt ((\<Sum>n\<leftarrow>[0..<b]. \<Sum>y\<leftarrow>[0..<h]. \<Sum>z\<leftarrow>[0..<w].
                                    (get x [n, j, y, z] + get (bias self') [0, j, 0, 0])\<^sup>2)
                                 / real (b * h * w))
                           + eps self)))
          \<and> is_initialized self' = 1 \<and> training self'
          \<and> (\<exists>y2 l2. ActNorm_forward self' x2 ldj2 reverse2 = Inr (self', y2, l2))"
    by (intro exI)
  have no_init: "\<forall>s x3 ldj3 reverse3 s' y3 l3.
            (is_initialized s \<noteq> 0 \<or> \<not> training s)
            \<and> ActNorm_forward s x3 ldj3 reverse3 = Inr (s', y3, l3) \<longrightarrow> s' = s"
    using ActNorm_forward_no_init by blast
  show ?thesis by (rule conjI[OF first no_init])
qed

theorem ActNorm_one_shot_init_witness:
  "\<exists>self' y l.
     ActNorm_forward
       \<lparr>is_initialized = 0, bias = \<lparr>shape = [1, 1, 1, 1], dat = [0]\<rparr>,
        logs = \<lparr>shape = [1, 1, 1, 1], dat = [0]\<rparr>, num_features = 1, scale = 1,
        eps = 1 / 1000000, training = True\<rparr>
       \<lparr>shape = [1, 1, 1, 2], dat = [1, 3]\<rparr> None False = Inr (self', y, l)
     \<and> bias self' = \<lparr>shape = [1, 1, 1, 1], dat = [- 2]\<rparr>
     \<and> is_initialized self' = 1
     \<and> (\<exists>y2 l2. ActNorm_forward self' \<lparr>shape = [1, 1, 1, 2], dat = [5, 7]\<rparr> None False
                    = Inr (self', y2, l2))"
proof -
  let ?self = "\<lparr>is_initialized = 0, bias = \<lparr>shape = [1, 1, 1, 1], dat = [0]\<rparr>,
        logs = \<lparr>shape = [1, 1, 1, 1], dat = [0]\<rparr>, num_features = 1, scale = 1,
        eps = 1 / 1000000, training = True\<rparr>"
  let ?x = "\<lparr>shape = [1, 1, 1, 2], dat = [1, 3 :: real]\<rparr>"
  let ?x2 = "\<lparr>shape = [1, 1, 1, 2], dat = [5, 7 :: real]\<rparr>"
  have h: "wf_tensor ?x" "shape ?x = [1, 1, 1, 2]" "(0::nat) < 1" "(0::nat) < 1" "(0::nat) < 2"
    "shape (bias ?self) = [1, 1, 1, 1]" "shape (logs ?self) = [1, 1, 1, 1]"
    "training ?self" "is_initialized ?self = 0" "0 < scale ?self" "0 < eps ?self"
    "wf_tensor ?x2" "shape ?x2 = [1, 1, 1, 2]"
    by (simp_all add: wf_tensor_def)
  from ActNorm_one_shot_init[OF h, of None False None False]
  have "\<exists>self' y l m xc v.
            ActNorm_forward ?self ?x None False = Inr (self', y, l)
          \<and> mean_dim ?x [0, 2, 3] True = Inr m \<and> bias self' = tmap uminus m
          \<and> bop (+) ?x (tmap uminus m) = Inr xc
          \<and> mean_dim (tmap (\<lambda>a. a\<^sup>2) xc) [0, 2, 3] True = Inr v
          \<and> logs self' = tmap (\<lambda>a. ln (scale ?self / (sqrt a + eps ?self))) v
          \<and> shape (bias self') = [1, 1, 1, 1] \<and> wf_tensor (bias self')
          \<and> shape (logs self') = [1, 1, 1, 1] \<and> wf_tensor (logs self')
          \<and> (\<forall>j<1. get (bias self') [0, j, 0, 0]
                  = - ((\<Sum>n\<leftarrow>[0..<1]. \<Sum>y\<leftarrow>[0..<1]. \<Sum>z\<leftarrow>[0..<2]. get ?x [n, j, y, z])
                       / real (1 * 1 * 2)))
          \<and> (\<forall>j<1. get (logs self') [0, j, 0, 0]
                  = ln (scale ?self
                        / (sqrt ((\<Sum>n\<leftarrow>[0..<1]. \<Sum>y\<leftarrow>[0..<1]. \<Sum>z\<leftarrow>[0..<2].
                                    (get ?x [n, j, y, z] + get (bias self') [0, j, 0, 0])\<^sup>2)
                                 / real (1 * 1 * 2))
                           + eps ?self)))
          \<and> is_initialized self' = 1 \<and> training self'
          \<and> (\<exists>y2 l2. ActNorm_forward self' ?x2 None False = Inr (self', y2, l2))"
    by (rule conjunct1)
  then obtain self' y l where
    a: "ActNorm_forward ?self ?x None False = Inr (self', y, l)"
    and sh: "shape (bias self') = [1, 1, 1, 1]" "wf_tensor (bias self')"
       "shape (logs self') = [1, 1, 1, 1]" "wf_tensor (logs self')"
    and bv: "\<forall>j<1. get (bias self') [0, j, 0, 0]
                  = - ((\<Sum>n\<leftarrow>[0..<1]. \<Sum>y\<leftarrow>[0..<1]. \<Sum>z\<leftarrow>[0..<2]. get ?x [n, j, y, z])
                       / real (1 * 1 * 2))"
    and lv: "\<forall>j<1. get (logs self') [0, j, 0, 0]
                  = ln (scale ?self
                        / (sqrt ((\<Sum>n\<leftarrow>[0..<1]. \<Sum>y\<leftarrow>[0..<1]. \<Sum>z\<leftarrow>[0..<2].
                                    (get ?x [n, j, y, z] + get (bias self') [0, j, 0, 0])\<^sup>2)
                                 / real (1 * 1 * 2))
                           + eps ?self))"
    and fl: "is_initialized self' = 1"
    and sc: "\<exists>y2 l2. ActNorm_forward self' ?x2 None False = Inr (self', y2, l2)"
    by (elim exE conjE) (rule that; (assumption | (intro exI, assumption)))
  have u: "[0..<2] = [0, 1]" "[0..<1] = [0]" by (simp_all add: upt_rec)
  have gb: "get (bias self') [0, 0, 0, 0] = - 2"
    using bv by (simp add: u get_def ravel.simps)
  have "bias self' = \<lparr>shape = [1, 1, 1, 1], dat = [- 2]\<rparr>"
    using tensor_1111[OF sh(2,1)] gb by simp
  then show ?thesis using a fl sc by blast
qed

text \<open>
  Claim C5: for a fixed weight matrix and a fixed spatial size \<open>h\<close> by \<open>w\<close>, the
  forward direction adds \<open>slogdet weight * h * w\<close> to the accumulator and the inverse
  direction subtracts the same number, computed from the same \<open>weight\<close>: the inverse
  pass on the output of the forward pass gives the accumulator back. This holds whatever
  \<open>slogdet\<close> and \<open>inv_fn\<close> compute, so nothing is taken from the inverse matrix.
\<close>

theorem InvConv_same_logdet:
  assumes "shape x = [b, c, h, w]" "0 < h" "0 < w" "num_channels self = c"
    and "prod_list (shape (weight self)) = c * c"
    and "slogdet (weight self) = Inr d"
    and "inv_fn (weight self) = Inr wi" "prod_list (shape wi) = c * c"
    and "wf_tensor s" "wf_tensor s'" "shape z = [b', c, h, w]"
  shows "(\<exists>y. InvConv_forward slogdet inv_fn self x (Some s) False
               = Inr (y, Some (tmap (\<lambda>a. a + d * real h * real w) s))
            \<and> (\<exists>x'. InvConv_forward slogdet inv_fn self y
                       (Some (tmap (\<lambda>a. a + d * real h * real w) s)) True = Inr (x', Some s)))
       \<and> (\<exists>x'. InvConv_forward slogdet inv_fn self z (Some s') True
               = Inr (x', Some (tmap (\<lambda>a. a - d * real h * real w) s')))"
proof -
  let ?k = "d * real h * real w"
  from InvConv_forward_sldj[of x b c h w self slogdet d s False inv_fn "weight self"] assms
  obtain y where y: "InvConv_forward slogdet inv_fn self x (Some s) False
               = Inr (y, Some (tmap (\<lambda>a. a + ?k) s))" "shape y = [b, c, h, w]"
    by auto
  have ws: "wf_tensor (tmap (\<lambda>a. a + ?k) s)" using assms(9) by simp
  from InvConv_forward_sldj[of y b c h w self slogdet d "tmap (\<lambda>a. a + d * real h * real w) s" True inv_fn wi]
    assms y(2) ws
  obtain x' where "InvConv_forward slogdet inv_fn self y (Some (tmap (\<lambda>a. a + ?k) s)) True
               = Inr (x', Some (tmap (\<lambda>a. a - ?k) (tmap (\<lambda>a. a + ?k) s)))"
    by auto
  then have bk: "InvConv_forward slogdet inv_fn self y (Some (tmap (\<lambda>a. a + ?k) s)) True
               = Inr (x', Some s)"
    by (simp add: tmap_tmap tmap_id)
  from InvConv_forward_sldj[of z b' c h w self slogdet d s' True inv_fn wi] assms
  obtain x'' where "InvConv_forward slogdet inv_fn self z (Some s') True
               = Inr (x'', Some (tmap (\<lambda>a. a - ?k) s'))"
    by auto
  then show ?thesis using y(1) bk by blast
qed

theorem InvConv_same_logdet_witness:
  "\<exists>y. InvConv_forward (\<lambda>W. Inr (ln \<bar>hd (dat W)\<bar>)) (\<lambda>W. Inr (tmap inverse W))
          \<lparr>num_channels = 1, weight = \<lparr>shape = [1, 1], dat = [3]\<rparr>\<rparr>
          \<lparr>shape = [1, 1, 1, 1], dat = [2]\<rparr> (Some \<lparr>shape = [1], dat = [0]\<rparr>) False
        = Inr (y, Some \<lparr>shape = [1], dat = [ln 3]\<rparr>)
      \<and> (\<exists>x'. InvConv_forward (\<lambda>W. Inr (ln \<bar>hd (dat W)\<bar>)) (\<lambda>W. Inr (tmap inverse W))
          \<lparr>num_channels = 1, weight = \<lparr>shape = [1, 1], dat = [3]\<rparr>\<rparr>
          y (Some \<lparr>shape = [1], dat = [ln 3]\<rparr>) True
        = Inr (x', Some \<lparr>shape = [1], dat = [0]\<rparr>))"
proof -
  let ?self = "\<lparr>num_channels = 1, weight = \<lparr>shape = [1, 1], dat = [3 :: real]\<rparr>\<rparr>"
  let ?x = "\<lparr>shape = [1, 1, 1, 1], dat = [2 :: real]\<rparr>"
  let ?s = "\<lparr>shape = [1], dat = [0 :: real]\<rparr>"
  have h: "shape ?x = [1, 1, 1, 1]" "(0::nat) < 1" "(0::nat) < 1" "num_channels ?self = 1"
    "prod_list (shape (weight ?self)) = 1 * 1"
    "(\<lambda>W. Inr (ln \<bar>hd (dat W)\<bar>)) (weight ?self) = Inr (ln 3)"
    "(\<lambda>W. Inr (tmap inverse W)) (weight ?self) = Inr (tmap inverse (weight ?self))"
    "prod_list (shape (tmap inverse (weight ?self))) = 1 * 1"
    "wf_tensor ?s" "wf_tensor ?s" "shape ?x = [1, 1, 1, 1]"
    by (simp_all add: wf_tensor_def)
  from InvConv_same_logdet[of ?x 1 1 1 1 ?self "\<lambda>W. Inr (ln \<bar>hd (dat W)\<bar>)" "ln 3"
      "\<lambda>W. Inr (tmap inverse W)" "tmap inverse (weight ?self)" ?s ?s ?x 1, OF h]
  show ?thesis by (simp add: tmap_def)
qed

text \<open>
  Claim C6: for a tensor \<open>x\<close> of shape \<open>(b, c, h, w)\<close> with \<open>h\<close> and \<open>w\<close>
  even, \<open>squeeze\<close> followed by \<open>squeeze\<close> in reverse returns \<open>x\<close> itself,
  whatever the type of its elements: no arithmetic is done on them. \<open>squeeze\<close> takes and
  returns no accumulator: a level without steps and without a next level, which only
  squeezes, hands the accumulator back as it received it, in both directions (\<open>xr\<close> is
  a tensor of numbers).
\<close>

theorem squeeze_unsqueeze:
  assumes "wf_tensor x" "shape x = [b, c, h, w]" "wf_tensor xr" "shape xr = [b, c, h, w]" "even h" "even w"
  shows "bnd (squeeze x False) (\<lambda>y. squeeze y True) = Inr x
       \<and> (\<exists>y. Glow_level_forward slogdet inv_fn (Glow_level [] None) xr sldj False
                 = Inr (Glow_level [] None, y, sldj)
              \<and> Glow_level_forward slogdet inv_fn (Glow_level [] None) y sldj True
                 = Inr (Glow_level [] None, xr, sldj))"
proof -
  from assms(5,6) obtain h' w' where hw: "h = 2 * h'" "w = 2 * w'" by (auto elim!: evenE)
  then have r: "bnd (squeeze x False) (\<lambda>y. squeeze y True) = Inr x"
    using squeeze_roundtrip_aux[of x b c h' w'] assms(1,2) by simp
  have "bnd (squeeze xr False) (\<lambda>y. squeeze y True) = Inr xr"
    using squeeze_roundtrip_aux[of xr b c h' w'] assms(3,4) hw by simp
  then obtain y where y: "squeeze xr False = Inr y" "squeeze y True = Inr xr"
    by (auto simp: bnd_def split: sum.splits)
  have "Glow_level_forward slogdet inv_fn (Glow_level [] None) xr sldj False
          = Inr (Glow_level [] None, y, sldj)"
    "Glow_level_forward slogdet inv_fn (Glow_level [] None) y sldj True
          = Inr (Glow_level [] None, xr, sldj)"
    by (simp_all add: bnd_def y)
  then show ?thesis using r by blast
qed

theorem squeeze_unsqueeze_witness:
  "bnd (squeeze \<lparr>shape = [1, 1, 2, 2], dat = [True, False, False, True]\<rparr> False)
       (\<lambda>y. squeeze y True)
     = Inr \<lparr>shape = [1, 1, 2, 2], dat = [True, False, False, True]\<rparr>
   \<and> (\<exists>y. Glow_level_forward (\<lambda>w. Inr 0) (\<lambda>w. Inr w) (Glow_level [] None)
               \<lparr>shape = [1, 1, 2, 2], dat = [1, 2, 3, 4]\<rparr> (Some (zeros [1])) False
             = Inr (Glow_level [] None, y, Some (zeros [1]))
          \<and> Glow_level_forward (\<lambda>w. Inr 0) (\<lambda>w. Inr w) (Glow_level [] None) y
               (Some (zeros [1])) True
             = Inr (Glow_level [] None, \<lparr>shape = [1, 1, 2, 2], dat = [1, 2, 3, 4]\<rparr>,
                    Some (zeros [1])))"
proof -
  have h: "wf_tensor \<lparr>shape = [1, 1, 2, 2], dat = [True, False, False, True]\<rparr>"
    "shape \<lparr>shape = [1, 1, 2, 2], dat = [True, False, False, True]\<rparr> = [1, 1, 2, 2]"
    "wf_tensor \<lparr>shape = [1, 1, 2, 2], dat = [1, 2, 3, 4 :: real]\<rparr>"
    "shape \<lparr>shape = [1, 1, 2, 2], dat = [1, 2, 3, 4 :: real]\<rparr> = [1, 1, 2, 2]"
    "even (2 :: nat)" "even (2 :: nat)"
    by (simp_all add: wf_tensor_def)
  show ?thesis by (rule squeeze_unsqueeze[OF h])
qed

text \<open>
  Claim C8, as the code has it: a coupling layer built for one channel per half and given
  three channels raises nothing. \<open>chunk\<close> cuts the three channels into halves of two
  and one, the one-channel scale and translation are broadcast over the two channels, and
  the layer returns a tensor of three channels (for a layer just built, the input itself).
  And \<open>squeeze\<close> of an empty batch of 5 by 5 images returns 2 by 2 images.
\<close>

theorem Coupling_odd_channels_counterexample:
  "map_sum id (fst \<circ> snd)
     (Coupling_forward
        (Coupling_init 1 1 (ones [1, 1, 3, 3]) (ones [1, 1, 3, 3]) (ones [1, 1, 1, 1]))
        \<lparr>shape = [1, 3, 1, 1], dat = [5, 6, 7]\<rparr> None False)
     = Inr \<lparr>shape = [1, 3, 1, 1], dat = [5, 6, 7]\<rparr>
   \<and> chunk2_shape [2, 3, 4, 4] = Inr ([2, 2, 4, 4], [2, 1, 4, 4])
   \<and> Coupling_forward_shape 1 16 False [2, 3, 4, 4] (Some [2]) False = Inr ([2, 3, 4, 4], Some [2])
   \<and> squeeze \<lparr>shape = [0, 3, 5, 5], dat = [] :: real list\<rparr> False
       = Inr \<lparr>shape = [0, 12, 2, 2], dat = []\<rparr>"
proof -
  let ?x = "\<lparr>shape = [1, 3, 1, 1], dat = [5, 6, 7 :: real]\<rparr>"
  have h: "wf_tensor ?x" "shape ?x = [1, 3, 1, 1]" "(0::nat) < 1" "(0::nat) < 1" "(0::nat) < 1"
    "shape (ones [1, 1, 3, 3]) = [1, 1, 3, 3]" "shape (ones [1, 1, 3, 3]) = [1, 1, 3, 3]"
    "shape (ones [1, 1, 1, 1]) = [1, 1, 1, 1]"
    by (simp_all add: wf_tensor_def)
  from Coupling_three_channels[OF h] obtain self' where
    "Coupling_forward
        (Coupling_init 1 1 (ones [1, 1, 3, 3]) (ones [1, 1, 3, 3]) (ones [1, 1, 1, 1]))
        ?x None False = Inr (self', ?x, None)" by blast
  then have a: "map_sum id (fst \<circ> snd)
     (Coupling_forward
        (Coupling_init 1 1 (ones [1, 1, 3, 3]) (ones [1, 1, 3, 3]) (ones [1, 1, 1, 1]))
        ?x None False) = Inr ?x" by simp
  have b: "chunk2_shape [2, 3, 4, 4] = Inr ([2, 2, 4, 4], [2, 1, 4, 4])"
    "Coupling_forward_shape 1 16 False [2, 3, 4, 4] (Some [2]) False = Inr ([2, 3, 4, 4], Some [2])"
    by (simp_all add: shape_eval)
  have c: "squeeze \<lparr>shape = [0, 3, 5, 5], dat = [] :: real list\<rparr> False
       = Inr \<lparr>shape = [0, 12, 2, 2], dat = []\<rparr>"
    by (simp add: squeeze_def view_def permute_def bnd_def upt6 tabulate_def)
  show ?thesis using a b c by simp
qed

text \<open>
  Claim C8, amended: neither \<open>squeeze\<close> nor the coupling layer checks its precondition,
  and the errors are those of the tensor operations. \<open>squeeze\<close> of a tensor with at
  least one element and an odd height or width raises RuntimeError, at its first
  \<open>view\<close>. A coupling layer built for \<open>k\<close> channels per half and given
  \<open>2 * k + 1\<close> channels raises RuntimeError when \<open>k \<ge> 2\<close> (the halves do not
  broadcast) and ValueError when \<open>k = 0\<close> (\<open>chunk\<close> returns one piece); when
  \<open>k = 1\<close> it goes on with halves of two channels and one, and returns a tensor of the
  shape of its input (\<open>x3\<close> below, for a layer just built).
\<close>

theorem preconditions_unchecked:
  assumes "shape x = [b, c, h, w]" "odd h \<or> odd w" "0 < b * c * h * w" "2 \<le> k"
    and "wf_tensor x3" "shape x3 = [n, 3, h', w']" "0 < n" "0 < h'" "0 < w'"
    and "shape w1 = [mid, 1, 3, 3]" "shape w2 = [mid, mid, 3, 3]" "shape w3 = [mid, mid, 1, 1]"
    and "0 < mid"
  shows "squeeze x False = Inl RuntimeError
       \<and> squeeze_shape [b, c, h, w] False = Inl RuntimeError
       \<and> Coupling_forward_shape k mid ini [n, 2 * k + 1, h', w'] ldj reverse = Inl RuntimeError
       \<and> Coupling_forward_shape 0 mid ini [n, 1, h', w'] ldj reverse = Inl ValueError
       \<and> Coupling_forward_shape 1 mid ini [n, 3, h', w'] (Some [n]) reverse
             = Inr ([n, 3, h', w'], Some [n])
       \<and> chunk2 x3 = Inr (narrow1 x3 0 2, narrow1 x3 2 1)
       \<and> shape (narrow1 x3 0 2) = [n, 2, h', w'] \<and> shape (narrow1 x3 2 1) = [n, 1, h', w']
       \<and> (\<exists>self'. Coupling_forward (Coupling_init 1 mid w1 w2 w3) x3 None False
                    = Inr (self', x3, None))"
  using squeeze_odd[OF assms(1-3)] squeeze_shape_odd[OF assms(2,3)] coupling_odd[OF assms(4)]
    coupling_one coupling_three[OF assms(13,8,9)] Coupling_three_channels[OF assms(5-12)]
  by simp

theorem preconditions_unchecked_witness:
  "squeeze \<lparr>shape = [1, 1, 1, 2], dat = [0, 1 :: int]\<rparr> False = Inl RuntimeError
   \<and> Coupling_forward_shape 2 1 True [1, 5, 1, 1] None False = Inl RuntimeError
   \<and> Coupling_forward_shape 1 1 True [1, 3, 1, 1] (Some [1]) False = Inr ([1, 3, 1, 1], Some [1])
   \<and> (\<exists>self'. Coupling_forward
         (Coupling_init 1 1 (ones [1, 1, 3, 3]) (ones [1, 1, 3, 3]) (ones [1, 1, 1, 1]))
         \<lparr>shape = [1, 3, 1, 1], dat = [5, 6, 7]\<rparr> None False
       = Inr (self', \<lparr>shape = [1, 3, 1, 1], dat = [5, 6, 7]\<rparr>, None))"
proof -
  let ?x = "\<lparr>shape = [1, 1, 1, 2], dat = [0, 1 :: int]\<rparr>"
  let ?x3 = "\<lparr>shape = [1, 3, 1, 1], dat = [5, 6, 7 :: real]\<rparr>"
  have h: "shape ?x = [1, 1, 1, 2]" "odd (1::nat) \<or> odd (2::nat)" "(0::nat) < 1 * 1 * 1 * 2"
    "(2::nat) \<le> 2" "wf_tensor ?x3" "shape ?x3 = [1, 3, 1, 1]" "(0::nat) < 1" "(0::nat) < 1"
    "(0::nat) < 1" "shape (ones [1, 1, 3, 3]) = [1, 1, 3, 3]"
    "shape (ones [1, 1, 3, 3]) = [1, 1, 3, 3]" "shape (ones [1, 1, 1, 1]) = [1, 1, 1, 1]"
    "(0::nat) < 1"
    by (simp_all add: wf_tensor_def)
  from preconditions_unchecked[OF h, of True None False]
    preconditions_unchecked[OF h, of True "Some [1]" False]
  show ?thesis by simp
qed




end
